theory Spec2Isabelle
  imports Main
begin

section \<open>JavaScript values\<close>

text \<open>
  The aggregator in \<^verbatim>\<open>api/all-courses.js\<close> handles values parsed from third-party JSON, so
  a record field may hold any JavaScript value that \<^verbatim>\<open>JSON.parse\<close> or a missing property
  can produce. Strings are lists of code units (code units below 256). A number is
  represented by the text that \<^verbatim>\<open>Number.prototype.toString\<close> gives for it (\<open>''0.5''\<close>,
  \<open>''42''\<close>, \<open>''NaN''\<close>; both zeros are \<open>''0''\<close>): the program only tests numbers for
  truthiness and converts them to strings. An object is the association list of its own
  properties, the first binding of a name being the property's value.
\<close>

datatype jsval =
    JUndefined
  | JNull
  | JBool bool
  | JNum string
  | JStr string
  | JArr "jsval list"
  | JObj "(string \<times> jsval) list"

text \<open>
  What can be thrown: a \<^verbatim>\<open>TypeError\<close> of the language, the \<^verbatim>\<open>URIError\<close> of
  \<^verbatim>\<open>encodeURIComponent\<close>, the rejection of \<^verbatim>\<open>fetch\<close> (network error), and the rejection of
  \<^verbatim>\<open>r.json()\<close> or \<^verbatim>\<open>r.text()\<close> (a body that cannot be read or parsed).
\<close>

datatype js_error = TypeError | URIError | FetchError | BodyError

text \<open>ToBoolean: what \<^verbatim>\<open>||\<close>, \<^verbatim>\<open>?:\<close>, \<^verbatim>\<open>if\<close> and \<^verbatim>\<open>Boolean(...)\<close> test.\<close>

fun truthy :: "jsval \<Rightarrow> bool" where
  "truthy JUndefined = False"
| "truthy JNull = False"
| "truthy (JBool b) = b"
| "truthy (JNum r) = (r \<noteq> ''0'' \<and> r \<noteq> ''NaN'')"
| "truthy (JStr s) = (s \<noteq> [])"
| "truthy (JArr xs) = True"
| "truthy (JObj kvs) = True"

text \<open>\<^verbatim>\<open>a || b\<close> on values that are already computed.\<close>

definition js_or :: "jsval \<Rightarrow> jsval \<Rightarrow> jsval" where
  "js_or a b = (if truthy a then a else b)"

text \<open>
  \<^verbatim>\<open>v.toString()\<close>, which is also what a template literal does to an interpolated value.
  On \<^verbatim>\<open>undefined\<close> and \<^verbatim>\<open>null\<close> the call throws. An object parsed from JSON inherits
  \<^verbatim>\<open>Object.prototype.toString\<close> unless it has an own property of that name, which JSON can
  only fill with a value that is not callable: then the call throws. An array joins the
  strings of its elements with commas, \<^verbatim>\<open>null\<close> and \<^verbatim>\<open>undefined\<close> elements giving the empty
  string.
\<close>

fun toString :: "jsval \<Rightarrow> js_error + string"
  and join_elems :: "jsval list \<Rightarrow> js_error + string" where
  "toString JUndefined = Inl TypeError"
| "toString JNull = Inl TypeError"
| "toString (JBool b) = Inr (if b then ''true'' else ''false'')"
| "toString (JNum r) = Inr r"
| "toString (JStr s) = Inr s"
| "toString (JArr xs) = join_elems xs"
| "toString (JObj kvs) =
     (if ''toString'' \<in> fst ` set kvs then Inl TypeError else Inr ''[object Object]'')"
| "join_elems [] = Inr []"
| "join_elems (x # xs) =
     (case (if x = JUndefined \<or> x = JNull then Inr [] else toString x) of
        Inl e \<Rightarrow> Inl e
      | Inr s \<Rightarrow>
          (if xs = [] then Inr s
           else case join_elems xs of Inl e \<Rightarrow> Inl e | Inr t \<Rightarrow> Inr (s @ '','' @ t)))"

section \<open>Course records\<close>

text \<open>
  The object literal every adapter builds. \<open>platform\<close> and \<open>free\<close> are always a string
  literal and a boolean; the other fields come from the third party.
\<close>

record course =
  title :: jsval
  description :: jsval
  image_c :: jsval
  url :: jsval
  platform :: string
  free :: bool

section \<open>Deduplication\<close>

text \<open>
  Lines 30 to 38 of the handler. The state of the loop is the set \<open>seen\<close>, the array
  \<open>deduped\<close> and the number of calls made to \<^verbatim>\<open>Math.random\<close> so far; \<open>rnd i\<close> is the number
  the \<open>i\<close>-th call returns. \<^verbatim>\<open>||\<close> evaluates its right operand only when the left one
  is falsy, so \<^verbatim>\<open>Math.random\<close> is called only for a record whose url and title are both
  falsy. A throwing \<^verbatim>\<open>toString\<close> leaves the loop (and reaches the handler's catch).
\<close>

type_synonym dedupe_state = "string set \<times> course list \<times> nat"

definition key_operand :: "(nat \<Rightarrow> string) \<Rightarrow> course \<Rightarrow> nat \<Rightarrow> jsval \<times> nat" where
  "key_operand rnd c n =
     (if truthy (url c) then (url c, n)
      else if truthy (title c) then (title c, n)
      else (JNum (rnd n), Suc n))"

definition dedupe_step :: "(nat \<Rightarrow> string) \<Rightarrow> course \<Rightarrow> dedupe_state \<Rightarrow> js_error + dedupe_state" where
  "dedupe_step rnd c st =
     (case st of (seen, deduped, n) \<Rightarrow>
        (case key_operand rnd c n of (v, n') \<Rightarrow>
           (case toString v of
              Inl e \<Rightarrow> Inl e
            | Inr key \<Rightarrow>
                (if key \<notin> seen then Inr (insert key seen, deduped @ [c], n')
                 else Inr (seen, deduped, n')))))"

fun dedupe_loop :: "(nat \<Rightarrow> string) \<Rightarrow> course list \<Rightarrow> dedupe_state \<Rightarrow> js_error + dedupe_state" where
  "dedupe_loop rnd [] st = Inr st"
| "dedupe_loop rnd (c # cs) st =
     (case dedupe_step rnd c st of Inl e \<Rightarrow> Inl e | Inr st' \<Rightarrow> dedupe_loop rnd cs st')"

definition dedupe :: "(nat \<Rightarrow> string) \<Rightarrow> course list \<Rightarrow> js_error + course list" where
  "dedupe rnd allCourses =
     (case dedupe_loop rnd allCourses ({}, [], 0) of
        Inl e \<Rightarrow> Inl e
      | Inr (seen, deduped, n) \<Rightarrow> Inr deduped)"

section \<open>Strings\<close>

text \<open>\<^verbatim>\<open>toLowerCase\<close> on code units below 256: the ASCII and the Latin-1 capital letters.\<close>

definition toLowerCase_char :: "char \<Rightarrow> char" where
  "toLowerCase_char c =
     (let n = (of_char c :: nat)
      in if (65 \<le> n \<and> n \<le> 90) \<or> (192 \<le> n \<and> n \<le> 222 \<and> n \<noteq> 215)
         then char_of (n + 32) else c)"

definition toLowerCase :: "string \<Rightarrow> string" where
  "toLowerCase s = map toLowerCase_char s"

text \<open>White space and line terminators below 256, which \<^verbatim>\<open>trim\<close> removes at both ends.\<close>

definition is_space :: "char \<Rightarrow> bool" where
  "is_space c = ((of_char c :: nat) \<in> {9, 10, 11, 12, 13, 32, 160})"

definition trim :: "string \<Rightarrow> string" where
  "trim s = rev (dropWhile is_space (rev (dropWhile is_space s)))"

text \<open>\<^verbatim>\<open>s.includes(q)\<close>: \<open>q\<close> occurs in \<open>s\<close> as a contiguous substring.\<close>

fun str_includes :: "string \<Rightarrow> string \<Rightarrow> bool" where
  "str_includes [] q = (q = [])"
| "str_includes (c # cs) q = (take (length q) (c # cs) = q \<or> str_includes cs q)"

text \<open>
  \<^verbatim>\<open>s.replace(/<[^>]*>/g, "")\<close>: every \<^verbatim>\<open><\<close> up to the next \<^verbatim>\<open>>\<close> is removed; a \<^verbatim>\<open><\<close> with
  no \<^verbatim>\<open>>\<close> after it stays.
\<close>

function stripTags :: "string \<Rightarrow> string" where
  "stripTags [] = []"
| "stripTags (c # cs) =
     (if c = CHR ''<'' then
        (case dropWhile (\<lambda>d. d \<noteq> CHR ''>'') cs of
           [] \<Rightarrow> c # stripTags cs
         | g # rest \<Rightarrow> stripTags rest)
      else c # stripTags cs)"
  by pat_completeness auto
termination
proof (relation "measure length")
  show "wf (measure length)" by simp
next
  fix c :: char and cs :: string
  show "(cs, c # cs) \<in> measure length" by simp
next
  fix c :: char and cs :: string and g :: char and rest :: string
  assume "dropWhile (\<lambda>d. d \<noteq> CHR ''>'') cs = g # rest"
  then have "length (g # rest) \<le> length cs"
    using length_dropWhile_le [of "\<lambda>d. d \<noteq> CHR ''>''" cs] by simp
  then show "(rest, c # cs) \<in> measure length" by simp
next
  fix c :: char and cs :: string
  show "(cs, c # cs) \<in> measure length" by simp
qed

section \<open>The feed pattern\<close>

text \<open>
  The regular expression \<open>itemRe\<close> of \<^verbatim>\<open>getGeeksForGeeks\<close> is a chain of eight literals
  (matched ignoring case, flag \<^verbatim>\<open>i\<close>) separated by lazy gaps \<^verbatim>\<open>[\s\S]*?\<close> that accept any
  text. A lazy gap followed by a literal stops at the first occurrence of the literal from
  which the rest of the chain still matches; since the gaps accept anything, that is the
  first occurrence whenever any occurrence works. So one \<^verbatim>\<open>exec\<close> is eight searches for
  the first occurrence of a literal, each in what the one before left; the three captured
  groups are the texts in front of the closing literals. \<open>find_ci lit s\<close> splits \<open>s\<close> at
  the first occurrence of \<open>lit\<close> into what is before it and what is after it.
\<close>

definition starts_with_ci :: "string \<Rightarrow> string \<Rightarrow> bool" where
  "starts_with_ci lit s = (toLowerCase (take (length lit) s) = lit)"

fun find_ci :: "string \<Rightarrow> string \<Rightarrow> (string \<times> string) option" where
  "find_ci lit [] = (if lit = [] then Some ([], []) else None)"
| "find_ci lit (c # cs) =
     (if starts_with_ci lit (c # cs) then Some ([], drop (length lit) (c # cs))
      else (case find_ci lit cs of
              None \<Rightarrow> None
            | Some (before, after) \<Rightarrow> Some (c # before, after)))"

text \<open>
  \<open>itemRe.exec(text)\<close> on the part of the text from \<open>lastIndex\<close> on: the three groups and
  the text after the match (where the next \<open>exec\<close> starts, flag \<^verbatim>\<open>g\<close>), or \<open>None\<close> for
  \<^verbatim>\<open>null\<close>.
\<close>

definition itemRe_exec :: "string \<Rightarrow> ((string \<times> string \<times> string) \<times> string) option" where
  "itemRe_exec s =
     Option.bind (find_ci ''<item>'' s) (\<lambda>(g0, t1).
     Option.bind (find_ci ''<title>'' t1) (\<lambda>(g1, t2).
     Option.bind (find_ci ''</title>'' t2) (\<lambda>(m1, t3).
     Option.bind (find_ci ''<link>'' t3) (\<lambda>(g2, t4).
     Option.bind (find_ci ''</link>'' t4) (\<lambda>(m2, t5).
     Option.bind (find_ci ''<description>'' t5) (\<lambda>(g3, t6).
     Option.bind (find_ci ''</description>'' t6) (\<lambda>(m3, t7).
     Option.bind (find_ci ''</item>'' t7) (\<lambda>(g4, t8).
       Some ((m1, m2, m3), t8)))))))))"

section \<open>Exceptions, property reads and the outside world\<close>

text \<open>
  A computation that may throw has type \<open>js_error + 'a\<close>, \<open>Inl\<close> being the exception.
  \<open>and_then\<close> is sequencing (a throw skips the rest), \<open>try_catch\<close> is \<^verbatim>\<open>try { } catch { }\<close>.
  An \<^verbatim>\<open>async\<close> function returns a promise: \<open>Inr v\<close> is the promise fulfilled with \<open>v\<close>,
  \<open>Inl e\<close> the promise rejected with \<open>e\<close>.
\<close>

definition and_then :: "js_error + 'a \<Rightarrow> ('a \<Rightarrow> js_error + 'b) \<Rightarrow> js_error + 'b" where
  "and_then m f = (case m of Inl e \<Rightarrow> Inl e | Inr v \<Rightarrow> f v)"

definition try_catch :: "js_error + 'a \<Rightarrow> (js_error \<Rightarrow> js_error + 'a) \<Rightarrow> js_error + 'a" where
  "try_catch body handle = (case body of Inl e \<Rightarrow> handle e | Inr v \<Rightarrow> Inr v)"

text \<open>
  Reading a property \<^verbatim>\<open>c.p\<close>. On \<^verbatim>\<open>null\<close> and \<^verbatim>\<open>undefined\<close> the read throws (\<open>nullish\<close>). On
  an object it gives the own property or \<^verbatim>\<open>undefined\<close>; on a string, number, boolean or
  array it gives \<^verbatim>\<open>undefined\<close> for each of the names this program reads (none is an index,
  \<^verbatim>\<open>length\<close> or a prototype method).
\<close>

definition nullish :: "jsval \<Rightarrow> bool" where
  "nullish v = (v = JUndefined \<or> v = JNull)"

fun get_prop :: "jsval \<Rightarrow> string \<Rightarrow> jsval" where
  "get_prop (JObj kvs) p = (case map_of kvs p of None \<Rightarrow> JUndefined | Some v \<Rightarrow> v)"
| "get_prop v p = JUndefined"

text \<open>\<^verbatim>\<open>xs.map(f)\<close> with a callback that may throw: the first throw ends the map.\<close>

fun map_throw :: "('a \<Rightarrow> js_error + 'b) \<Rightarrow> 'a list \<Rightarrow> js_error + 'b list" where
  "map_throw f [] = Inr []"
| "map_throw f (x # xs) =
     and_then (f x) (\<lambda>y. and_then (map_throw f xs) (\<lambda>ys. Inr (y # ys)))"

text \<open>
  \<^verbatim>\<open>v.map(f)\<close> on a value from JSON: only an array has a callable \<^verbatim>\<open>map\<close>; on anything else
  the call throws.
\<close>

fun array_map :: "(jsval \<Rightarrow> js_error + 'b) \<Rightarrow> jsval \<Rightarrow> js_error + 'b list" where
  "array_map f (JArr xs) = map_throw f xs"
| "array_map f v = Inl TypeError"

text \<open>
  The response object of \<^verbatim>\<open>fetch\<close>: its \<^verbatim>\<open>ok\<close> flag, and what \<^verbatim>\<open>r.json()\<close> and \<^verbatim>\<open>r.text()\<close>
  settle to.
\<close>

datatype fetch_response =
  Response (r_ok: bool) (r_json: "js_error + jsval") (r_text: "js_error + string")

text \<open>
  \<open>world\<close> is everything the program takes from outside its own text: the built-in
  \<^verbatim>\<open>encodeURIComponent\<close> (which throws on a lone surrogate), \<^verbatim>\<open>fetch\<close> as a function of the
  URL and the request headers (a header value \<open>None\<close> is \<^verbatim>\<open>undefined\<close>; the result \<open>Inl\<close>
  is a rejected promise), and the numbers that the
  successive calls of \<^verbatim>\<open>Math.random\<close> return. \<open>env\<close> is \<^verbatim>\<open>process.env\<close>, where a variable
  is a string or missing.
\<close>

record world =
  encodeURIComponent :: "string \<Rightarrow> js_error + string"
  fetch :: "string \<Rightarrow> (string \<times> string option) list \<Rightarrow> js_error + fetch_response"
  math_random :: "nat \<Rightarrow> string"

record env =
  RAPIDAPI_KEY :: "string option"
  RAPIDAPI_HOST :: "string option"

text \<open>Truthiness of \<^verbatim>\<open>process.env.X\<close>: present and not the empty string.\<close>

definition env_truthy :: "string option \<Rightarrow> bool" where
  "env_truthy v = (case v of None \<Rightarrow> False | Some s \<Rightarrow> s \<noteq> [])"

text \<open>\<^verbatim>\<open>process.env.X || d\<close> with a string \<open>d\<close>.\<close>

definition env_or :: "string option \<Rightarrow> string \<Rightarrow> string" where
  "env_or v d = (case v of None \<Rightarrow> d | Some s \<Rightarrow> if s = [] then d else s)"

section \<open>Source adapters\<close>

text \<open>
  Each adapter is an \<^verbatim>\<open>async\<close> function whose whole body is one \<^verbatim>\<open>try\<close> block. The query
  is a string, so \<^verbatim>\<open>query || ""\<close> is the query itself.
\<close>

definition coursera_item :: "jsval \<Rightarrow> js_error + course" where
  "coursera_item c =
     (if nullish c then Inl TypeError
      else and_then
        (if truthy (get_prop c ''slug'')
         then and_then (toString (get_prop c ''slug''))
                (\<lambda>slug. Inr (JStr (''https://www.coursera.org/learn/'' @ slug)))
         else Inr JNull)
        (\<lambda>u. Inr \<lparr>title = js_or (get_prop c ''name'') (get_prop c ''title''),
                  description =
                    js_or (js_or (get_prop c ''description'') (get_prop c ''subtitle'')) (JStr []),
                  image_c = js_or (get_prop c ''photoUrl'') JNull,
                  url = u,
                  platform = ''Coursera'',
                  free = True\<rparr>))"

definition getCoursera :: "world \<Rightarrow> string \<Rightarrow> js_error + course list" where
  "getCoursera w query =
     try_catch
       (and_then (encodeURIComponent w query) (\<lambda>search.
        and_then (fetch w (''https://api.coursera.org/api/courses.v1?q=search&query='' @ search
                           @ ''&fields=photoUrl,description,slug,subtitle'') []) (\<lambda>r.
          if \<not> r_ok r then Inr []
          else and_then (r_json r) (\<lambda>data.
            if nullish data then Inl TypeError
            else array_map coursera_item (js_or (get_prop data ''elements'') (JArr []))))))
       (\<lambda>err. Inr [])"

definition classcentral_item :: "jsval \<Rightarrow> js_error + course" where
  "classcentral_item c =
     (if nullish c then Inl TypeError
      else Inr \<lparr>title = get_prop c ''title'',
                description = js_or (get_prop c ''description'') (JStr []),
                image_c = js_or (get_prop c ''image'') JNull,
                url = js_or (get_prop c ''url'') JNull,
                platform = ''Class Central'',
                free = True\<rparr>)"

definition cc_url :: string where
  "cc_url = ''https://www.classcentral.com/report/wp-json/cc/list?tag=free-online-course''"

definition getClassCentral :: "world \<Rightarrow> js_error + course list" where
  "getClassCentral w =
     try_catch
       (and_then (fetch w cc_url [])
          (\<lambda>r.
            if \<not> r_ok r then Inr []
            else and_then (r_json r) (\<lambda>data.
              array_map classcentral_item (js_or data (JArr [])))))
       (\<lambda>err. Inr [])"

text \<open>The three object literals of \<^verbatim>\<open>getFreeCodeCamp\<close> share the image, the url and the tag.\<close>

definition fcc_entry :: "jsval \<Rightarrow> jsval \<Rightarrow> course" where
  "fcc_entry t d =
     \<lparr>title = t,
      description = d,
      image_c = JStr ''https://design-style-guide.freecodecamp.org/downloads/fcc_secondary_small.svg'',
      url = JStr ''https://www.freecodecamp.org/learn'',
      platform = ''freeCodeCamp'',
      free = True\<rparr>"

text \<open>
  The entry returned on a response that is not a success (lines 105 to 114), and the entry
  returned by the \<^verbatim>\<open>catch\<close> block (lines 130 to 139).
\<close>

definition fcc_generic_entry :: course where
  "fcc_generic_entry =
     fcc_entry (JStr ''freeCodeCamp Learn'')
       (JStr (''freeCodeCamp'' @ [CHR 0x27]
              @ ''s self-paced curriculum (Responsive Web Design, JavaScript Algorithms, Front End Libraries, etc.)''))"

definition fcc_fallback_entry :: course where
  "fcc_fallback_entry = fcc_entry (JStr ''freeCodeCamp: Learn'') (JStr ''freeCodeCamp curriculum'')"

definition fcc_url :: string where
  "fcc_url = ''https://raw.githubusercontent.com/freeCodeCamp/freeCodeCamp/main/curriculum/challenges/english/00-getting-started/freecodecamp-basics.json''"

definition getFreeCodeCamp :: "world \<Rightarrow> string \<Rightarrow> js_error + course list" where
  "getFreeCodeCamp w query =
     try_catch
       (and_then (fetch w fcc_url []) (\<lambda>r.
          if \<not> r_ok r then Inr [fcc_generic_entry]
          else and_then (r_json r) (\<lambda>data.
            if nullish data then Inl TypeError
            else Inr [fcc_entry (js_or (get_prop data ''title'') (JStr ''freeCodeCamp: Learn''))
                        (js_or (get_prop data ''description'') (JStr ''freeCodeCamp curriculum''))])))
       (\<lambda>err. Inr [fcc_fallback_entry])"

definition gfg_item :: "string \<Rightarrow> string \<Rightarrow> string \<Rightarrow> course" where
  "gfg_item t desc link =
     \<lparr>title = JStr t,
      description = JStr desc,
      image_c = JNull,
      url = JStr link,
      platform = ''GeeksforGeeks'',
      free = True\<rparr>"

text \<open>
  The \<^verbatim>\<open>while\<close> loop over the matches of \<open>itemRe\<close>: \<open>s\<close> is the text from \<open>lastIndex\<close> on,
  \<open>items\<close> the array built so far. \<^verbatim>\<open>continue\<close> and the end of the body go to the next
  \<open>exec\<close>, \<^verbatim>\<open>break\<close> leaves with the items.
\<close>

function gfg_loop :: "string \<Rightarrow> string \<Rightarrow> course list \<Rightarrow> course list" where
  "gfg_loop query s items =
     (case itemRe_exec s of
        None \<Rightarrow> items
      | Some (m, rest) \<Rightarrow>
          (let t = trim (stripTags (fst m));
               link = trim (stripTags (fst (snd m)));
               desc = trim (stripTags (snd (snd m)))
           in if query \<noteq> []
                 \<and> \<not> str_includes (toLowerCase t) (toLowerCase query)
                 \<and> \<not> str_includes (toLowerCase desc) (toLowerCase query)
              then gfg_loop query rest items
              else if length (items @ [gfg_item t desc link]) \<ge> 20
                   then items @ [gfg_item t desc link]
                   else gfg_loop query rest (items @ [gfg_item t desc link])))"
  by pat_completeness auto
termination
proof (relation "measure (\<lambda>(query, s, items). length s)")
  have le: "length a \<le> length s" if "find_ci lit s = Some (b, a)" for lit s b a
    using that by (induction s arbitrary: b) (auto split: if_splits option.splits)
  have less: "length a < length s" if "find_ci lit s = Some (b, a)" and "lit \<noteq> []" for lit s b a
    using that by (induction s arbitrary: b) (auto split: if_splits option.splits)
  have shorter: "length rest < length s" if "itemRe_exec s = Some (m, rest)" for s m rest
  proof -
    from that obtain g0 t1 g1 t2 m1 t3 g2 t4 m2 t5 g3 t6 m3 t7 g4 where
      f: "find_ci ''<item>'' s = Some (g0, t1)" "find_ci ''<title>'' t1 = Some (g1, t2)"
         "find_ci ''</title>'' t2 = Some (m1, t3)" "find_ci ''<link>'' t3 = Some (g2, t4)"
         "find_ci ''</link>'' t4 = Some (m2, t5)" "find_ci ''<description>'' t5 = Some (g3, t6)"
         "find_ci ''</description>'' t6 = Some (m3, t7)" "find_ci ''</item>'' t7 = Some (g4, rest)"
      unfolding itemRe_exec_def by (auto split: Option.bind_splits)
    from less [OF f(1)] le [OF f(2)] le [OF f(3)] le [OF f(4)] le [OF f(5)] le [OF f(6)]
      le [OF f(7)] le [OF f(8)]
    show ?thesis by simp
  qed
  show "wf (measure (\<lambda>(query, s, items). length s))" by simp
  show "((query, rest, items), (query, s, items)) \<in> measure (\<lambda>(query, s, items). length s)"
    if "itemRe_exec s = Some x" and "(m, rest) = x"
    for query :: string and s :: string and items :: "course list" and x m rest
    using shorter [of s m rest] that by simp
  show "((query, rest, items @ [gfg_item t desc link]), (query, s, items))
          \<in> measure (\<lambda>(query, s, items). length s)"
    if "itemRe_exec s = Some x" and "(m, rest) = x"
    for query :: string and s :: string and items :: "course list" and x m rest t desc link
    using shorter [of s m rest] that by simp
qed

definition gfg_url :: string where
  "gfg_url = ''https://www.geeksforgeeks.org/feed/''"

definition getGeeksForGeeks :: "world \<Rightarrow> string \<Rightarrow> js_error + course list" where
  "getGeeksForGeeks w query =
     try_catch
       (and_then (fetch w gfg_url []) (\<lambda>r.
          if \<not> r_ok r then Inr []
          else and_then (r_text r) (\<lambda>s. Inr (gfg_loop query s []))))
       (\<lambda>err. Inr [])"

definition udemy_item :: "jsval \<Rightarrow> js_error + course" where
  "udemy_item c =
     (if nullish c then Inl TypeError
      else Inr \<lparr>title = js_or (get_prop c ''title'') (get_prop c ''name''),
                description =
                  js_or (js_or (get_prop c ''headline'') (get_prop c ''description'')) (JStr []),
                image_c =
                  js_or (js_or (get_prop c ''image_480x270'') (get_prop c ''image_240x135'')) JNull,
                url = js_or (get_prop c ''url'') JNull,
                platform = ''Udemy'',
                free = truthy (get_prop c ''coupon'')\<rparr>)"

definition getUdemy :: "world \<Rightarrow> env \<Rightarrow> string \<Rightarrow> js_error + course list" where
  "getUdemy w e query =
     try_catch
       (let apiKey = RAPIDAPI_KEY e;
            apiHost = env_or (RAPIDAPI_HOST e) ''udemy-paid-courses-for-free-api.p.rapidapi.com''
        in and_then (encodeURIComponent w query) (\<lambda>search.
           and_then (fetch w (''https://'' @ apiHost @ ''/rapidapi/courses/search?page=1&page_size=20&query=''
                              @ search)
                       [(''X-RapidAPI-Key'', apiKey), (''X-RapidAPI-Host'', Some apiHost)]) (\<lambda>r.
             if \<not> r_ok r then Inr []
             else and_then (r_json r) (\<lambda>data.
               if nullish data then Inl TypeError
               else array_map udemy_item (js_or (get_prop data ''courses'') (JArr []))))))
       (\<lambda>err. Inr [])"

section \<open>The handler\<close>

text \<open>
  \<^verbatim>\<open>req.query.q\<close> is missing, a string, or an array of strings when the parameter is
  repeated; \<^verbatim>\<open>(req.query.q || "").toString()\<close> turns it into one string.
\<close>

datatype query_param = QAbsent | QString string | QArray "string list"

record request =
  query_q :: query_param

fun join_comma :: "string list \<Rightarrow> string" where
  "join_comma [] = []"
| "join_comma [x] = x"
| "join_comma (x # y # ys) = x @ '','' @ join_comma (y # ys)"

fun q_string :: "query_param \<Rightarrow> string" where
  "q_string QAbsent = []"
| "q_string (QString s) = s"
| "q_string (QArray xs) = join_comma xs"

text \<open>
  The response object: the status code, the headers set so far, and the body sent by
  \<^verbatim>\<open>res.json\<close>, which is either the array of records or the object \<^verbatim>\<open>{ error: msg }\<close>.
\<close>

datatype json_body = Courses "course list" | ErrorObject string

record response =
  statusCode :: nat
  headers :: "string \<rightharpoonup> string"
  body :: "json_body option"

definition setHeader :: "string \<Rightarrow> string \<Rightarrow> response \<Rightarrow> response" where
  "setHeader name v res = res\<lparr>headers := (headers res)(name \<mapsto> v)\<rparr>"

definition status :: "nat \<Rightarrow> response \<Rightarrow> response" where
  "status code res = res\<lparr>statusCode := code\<rparr>"

definition json :: "json_body \<Rightarrow> response \<Rightarrow> response" where
  "json b res = res\<lparr>body := Some b\<rparr>"

text \<open>
  The array \<open>promises\<close> is represented by the adapters called, in call order:
  \<open>selected_sources\<close> are lines 14 to 19, \<open>call_source\<close> is the call itself.
\<close>

datatype source = Coursera | ClassCentral | FreeCodeCamp | GeeksForGeeks | Udemy

definition selected_sources :: "env \<Rightarrow> source list" where
  "selected_sources e =
     [Coursera, ClassCentral, FreeCodeCamp, GeeksForGeeks]
     @ (if env_truthy (RAPIDAPI_KEY e) then [Udemy] else [])"

fun call_source :: "world \<Rightarrow> env \<Rightarrow> string \<Rightarrow> source \<Rightarrow> js_error + course list" where
  "call_source w e q Coursera = getCoursera w q"
| "call_source w e q ClassCentral = getClassCentral w"
| "call_source w e q FreeCodeCamp = getFreeCodeCamp w q"
| "call_source w e q GeeksForGeeks = getGeeksForGeeks w q"
| "call_source w e q Udemy = getUdemy w e q"

text \<open>
  \<^verbatim>\<open>Promise.allSettled\<close> waits for every promise; the handler keeps the values of the
  fulfilled ones and concatenates them (each value is an array, so \<^verbatim>\<open>r.value || []\<close> is the
  value, and every element is an object, so \<^verbatim>\<open>filter(Boolean)\<close> keeps all of them).
\<close>

definition fulfilled_values :: "(js_error + course list) list \<Rightarrow> course list" where
  "fulfilled_values results = concat (map (\<lambda>r. case r of Inl e \<Rightarrow> [] | Inr v \<Rightarrow> v) results)"

definition handler :: "world \<Rightarrow> env \<Rightarrow> request \<Rightarrow> response \<Rightarrow> response" where
  "handler w e req res =
     (let q = trim (q_string (query_q req));
          results = map (call_source w e q) (selected_sources e);
          allCourses = fulfilled_values results
      in case dedupe (math_random w) allCourses of
           Inr deduped \<Rightarrow>
             json (Courses deduped)
               (status 200
                 (setHeader ''Content-Type'' ''application/json; charset=utf-8''
                   (setHeader ''Access-Control-Allow-Origin'' ''*''
                     (setHeader ''Cache-Control'' ''s-maxage=3600, stale-while-revalidate=59'' res))))
         | Inl err \<Rightarrow>
             json (ErrorObject ''Failed to fetch aggregated courses'')
               (status 500 (setHeader ''Access-Control-Allow-Origin'' ''*'' res)))"

section \<open>Vocabulary of the properties\<close>

text \<open>
  The operand of the key expression that comes from the record itself: the url when it is
  truthy, else the title when it is truthy. \<open>field_key\<close> is the key it gives (none when the
  record has neither, or when \<^verbatim>\<open>toString\<close> throws); \<open>keyless\<close> records get a random key.
\<close>

definition field_operand :: "course \<Rightarrow> jsval option" where
  "field_operand c =
     (if truthy (url c) then Some (url c)
      else if truthy (title c) then Some (title c)
      else None)"

definition field_key :: "course \<Rightarrow> string option" where
  "field_key c =
     (case field_operand c of
        None \<Rightarrow> None
      | Some v \<Rightarrow> (case toString v of Inl e \<Rightarrow> None | Inr k \<Rightarrow> Some k))"

definition keyless :: "course \<Rightarrow> bool" where
  "keyless c = (\<not> truthy (url c) \<and> \<not> truthy (title c))"

definition field_keys :: "course list \<Rightarrow> string set" where
  "field_keys xs = set (List.map_filter field_key xs)"

text \<open>The invariant of the deduplication loop: the field keys kept so far are distinct and seen.\<close>

definition keys_inv :: "dedupe_state \<Rightarrow> bool" where
  "keys_inv st =
     (case st of (seen, deduped, n) \<Rightarrow>
        distinct (List.map_filter field_key deduped)
        \<and> set (List.map_filter field_key deduped) \<subseteq> seen)"

text \<open>
  What the feed loop pushes: a record built from the three groups of a match, each stripped
  of tags and trimmed, and, when there is a query, with the lower-cased query inside the
  lower-cased title or description.
\<close>

definition gfg_match :: "string \<Rightarrow> course \<Rightarrow> bool" where
  "gfg_match query c =
     (\<exists>m1 m2 m3. c = gfg_item (trim (stripTags m1)) (trim (stripTags m3)) (trim (stripTags m2))
        \<and> (query = []
            \<or> str_includes (toLowerCase (trim (stripTags m1))) (toLowerCase query)
            \<or> str_includes (toLowerCase (trim (stripTags m3))) (toLowerCase query)))"

text \<open>
  An adapter's request fails: \<^verbatim>\<open>fetch\<close> rejects (network error), the status is not a
  success, or the body cannot be read or parsed (\<open>read\<close> is \<open>r_json\<close> or \<open>r_text\<close>,
  whichever the adapter calls).
\<close>

definition request_fails ::
  "(fetch_response \<Rightarrow> js_error + 'a) \<Rightarrow> js_error + fetch_response \<Rightarrow> bool" where
  "request_fails read x =
     (case x of
        Inl e \<Rightarrow> True
      | Inr r \<Rightarrow> \<not> r_ok r \<or> isl (read r))"

text \<open>
  The URL and the headers of the request each of the two searching adapters makes, as
  built at lines 58 and 181 to 189.
\<close>

definition coursera_url :: "string \<Rightarrow> string" where
  "coursera_url search =
     ''https://api.coursera.org/api/courses.v1?q=search&query='' @ search
     @ ''&fields=photoUrl,description,slug,subtitle''"

definition udemy_host :: "env \<Rightarrow> string" where
  "udemy_host e = env_or (RAPIDAPI_HOST e) ''udemy-paid-courses-for-free-api.p.rapidapi.com''"

definition udemy_url :: "env \<Rightarrow> string \<Rightarrow> string" where
  "udemy_url e search =
     ''https://'' @ udemy_host e @ ''/rapidapi/courses/search?page=1&page_size=20&query='' @ search"

definition udemy_headers :: "env \<Rightarrow> (string \<times> string option) list" where
  "udemy_headers e = [(''X-RapidAPI-Key'', RAPIDAPI_KEY e), (''X-RapidAPI-Host'', Some (udemy_host e))]"

text \<open>
  One adapter fails, for the query it is called with: the one request it makes fails in
  one of the three ways above, read the way this adapter reads the body. (When
  \<^verbatim>\<open>encodeURIComponent\<close> throws, the adapter makes no request at all; this counts as a
  failure too.)
\<close>

fun source_fails :: "world \<Rightarrow> env \<Rightarrow> string \<Rightarrow> source \<Rightarrow> bool" where
  "source_fails w e q Coursera =
     (case encodeURIComponent w q of
        Inl err \<Rightarrow> True
      | Inr search \<Rightarrow> request_fails r_json (fetch w (coursera_url search) []))"
| "source_fails w e q ClassCentral = request_fails r_json (fetch w cc_url [])"
| "source_fails w e q FreeCodeCamp = request_fails r_json (fetch w fcc_url [])"
| "source_fails w e q GeeksForGeeks = request_fails r_text (fetch w gfg_url [])"
| "source_fails w e q Udemy =
     (case encodeURIComponent w q of
        Inl err \<Rightarrow> True
      | Inr search \<Rightarrow> request_fails r_json (fetch w (udemy_url e search) (udemy_headers e)))"

text \<open>
  The key strings that the records of a sequence put into \<open>seen\<close>: their url and title
  keys, and the draws made for the records that have neither (the first draws, one each).
\<close>

definition keys_of :: "(nat \<Rightarrow> string) \<Rightarrow> course list \<Rightarrow> string set" where
  "keys_of rnd xs = field_keys xs \<union> rnd ` {..< length (filter keyless xs)}"

text \<open>A response object before the handler touches it.\<close>

definition new_response :: response where
  "new_response = \<lparr>statusCode = 200, headers = Map.empty, body = None\<rparr>"

section \<open>Example worlds\<close>

text \<open>
  Every source unreachable: each \<^verbatim>\<open>fetch\<close> rejects. \<^verbatim>\<open>encodeURIComponent\<close> is the identity
  here, as it is on the unreserved characters.
\<close>

definition unreachable_world :: world where
  "unreachable_world =
     \<lparr>encodeURIComponent = Inr, fetch = (\<lambda>u h. Inl FetchError), math_random = (\<lambda>n. ''0.5'')\<rparr>"

text \<open>
  Class Central answers \<^verbatim>\<open>[{"url": {"toString": 1}}]\<close>, the other sources answer 503.
\<close>

definition odd_url_world :: world where
  "odd_url_world =
     \<lparr>encodeURIComponent = Inr,
      fetch = (\<lambda>u h.
        if u = cc_url
        then Inr (Response True
               (Inr (JArr [JObj [(''url'', JObj [(''toString'', JNum ''1'')])]])) (Inl BodyError))
        else Inr (Response False (Inl BodyError) (Inl BodyError))),
      math_random = (\<lambda>n. ''0.5'')\<rparr>"

text \<open>
  The tech feed answers with three items, one of them about Python; the other sources are
  unreachable.
\<close>

definition feed_text :: string where
  "feed_text = ''<rss><item><title>Learn <b>Python</b></title><link>https://g.org/1</link><description>Intro</description></item><item><title>Java</title><link>https://g.org/2</link><description>Streams</description></item><item><title>Go</title><link>https://g.org/3</link><description>Channels</description></item></rss>''"

definition feed_world :: world where
  "feed_world =
     \<lparr>encodeURIComponent = Inr,
      fetch = (\<lambda>u h.
        if u = gfg_url
        then Inr (Response True (Inl BodyError) (Inr feed_text))
        else Inl FetchError),
      math_random = (\<lambda>n. ''0.5'')\<rparr>"

text \<open>
  Every source fails, each in its own way: the tech feed is unreachable, Class Central
  and the curriculum source answer 503, and the two search endpoints answer 200 with a
  page that is readable text but not JSON.
\<close>

definition failing_world :: world where
  "failing_world =
     \<lparr>encodeURIComponent = Inr,
      fetch = (\<lambda>u h.
        if u = gfg_url then Inl FetchError
        else if u = cc_url \<or> u = fcc_url
        then Inr (Response False (Inl BodyError) (Inr ''Service Unavailable''))
        else Inr (Response True (Inl BodyError) (Inr ''<html>maintenance</html>''))),
      math_random = (\<lambda>n. ''0.5'')\<rparr>"

text \<open>
  Only the paid-course source answers (it is the one request that carries headers), with
  one course; the other sources are unreachable.
\<close>

definition udemy_world :: world where
  "udemy_world =
     \<lparr>encodeURIComponent = Inr,
      fetch = (\<lambda>u h.
        if h \<noteq> []
        then Inr (Response True
               (Inr (JObj [(''courses'',
                       JArr [JObj [(''title'', JStr ''SQL Bootcamp''),
                                   (''url'', JStr ''https://u.example/sql''),
                                   (''coupon'', JStr ''FREE'')]])]))
               (Inl BodyError))
        else Inl FetchError),
      math_random = (\<lambda>n. ''0.5'')\<rparr>"

definition key_env :: env where
  "key_env = \<lparr>RAPIDAPI_KEY = Some ''k1'', RAPIDAPI_HOST = None\<rparr>"

definition no_env :: env where
  "no_env = \<lparr>RAPIDAPI_KEY = None, RAPIDAPI_HOST = None\<rparr>"

definition rec_of :: "jsval \<Rightarrow> jsval \<Rightarrow> string \<Rightarrow> course" where
  "rec_of u t p =
     \<lparr>title = t, description = JStr [], image_c = JNull, url = u, platform = p, free = True\<rparr>"

section \<open>Deduplication: the loop\<close>

lemma key_operand_field:
  "key_operand rnd c n =
     (case field_operand c of Some v \<Rightarrow> (v, n) | None \<Rightarrow> (JNum (rnd n), Suc n))"
  by (simp add: key_operand_def field_operand_def)

lemma dedupe_loop_append:
  "dedupe_loop rnd (xs @ ys) st =
     (case dedupe_loop rnd xs st of Inl e \<Rightarrow> Inl e | Inr st' \<Rightarrow> dedupe_loop rnd ys st')"
  by (induction xs arbitrary: st) (auto split: sum.splits)

lemma dedupe_step_seen_mono:
  "dedupe_step rnd c (s, d, n) = Inr (s', d', n') \<Longrightarrow> s \<subseteq> s'"
  by (auto simp: dedupe_step_def split: prod.splits sum.splits if_splits)

lemma dedupe_loop_seen_mono:
  "dedupe_loop rnd xs (s, d, n) = Inr (s', d', n') \<Longrightarrow> s \<subseteq> s'"
proof (induction xs arbitrary: s d n)
  case Nil
  then show ?case by simp
next
  case (Cons c cs)
  from Cons.prems obtain s1 d1 n1 where
    st: "dedupe_step rnd c (s, d, n) = Inr (s1, d1, n1)"
    and rest: "dedupe_loop rnd cs (s1, d1, n1) = Inr (s', d', n')"
    by (auto split: sum.splits)
  from dedupe_step_seen_mono [OF st] Cons.IH [OF rest] show ?case by blast
qed

lemma dedupe_step_key_seen:
  "dedupe_step rnd c (s, d, n) = Inr (s', d', n') \<Longrightarrow> field_operand c = Some v \<Longrightarrow>
     toString v = Inr k \<Longrightarrow> k \<in> s'"
  by (auto simp: dedupe_step_def key_operand_field split: if_splits)

lemma dedupe_step_throws:
  "field_operand c = Some v \<Longrightarrow> toString v = Inl e \<Longrightarrow> dedupe_step rnd c st = Inl e"
  by (cases st) (simp add: dedupe_step_def key_operand_field)

lemma dedupe_step_seen_before:
  "field_operand c = Some v \<Longrightarrow> toString v = Inr k \<Longrightarrow> k \<in> s \<Longrightarrow>
     dedupe_step rnd c (s, d, n) = Inr (s, d, n)"
  by (simp add: dedupe_step_def key_operand_field)

lemma dedupe_loop_later_duplicate:
  assumes a: "field_operand a = Some va" and b: "field_operand b = Some vb"
    and eq: "toString va = toString vb"
  shows "dedupe_loop rnd (pre @ a # mid @ b # post) st = dedupe_loop rnd (pre @ a # mid @ post) st"
proof (cases "dedupe_loop rnd pre st")
  case (Inl e)
  then show ?thesis by (simp add: dedupe_loop_append)
next
  case (Inr st1)
  obtain s1 d1 n1 where st1: "st1 = (s1, d1, n1)" by (cases st1) auto
  show ?thesis
  proof (cases "toString va")
    case (Inl e)
    with a have "dedupe_step rnd a st1 = Inl e" by (rule dedupe_step_throws)
    with Inr show ?thesis by (simp add: dedupe_loop_append)
  next
    case k: (Inr k)
    show ?thesis
    proof (cases "dedupe_step rnd a st1")
      case (Inl e)
      with Inr show ?thesis by (simp add: dedupe_loop_append)
    next
      case st2: (Inr st2)
      obtain s2 d2 n2 where st2': "st2 = (s2, d2, n2)" by (cases st2) auto
      from st2 st1 st2' a k have k2: "k \<in> s2" by (auto dest: dedupe_step_key_seen)
      show ?thesis
      proof (cases "dedupe_loop rnd mid st2")
        case (Inl e)
        with Inr st2 show ?thesis by (simp add: dedupe_loop_append)
      next
        case st3: (Inr st3)
        obtain s3 d3 n3 where st3': "st3 = (s3, d3, n3)" by (cases st3) auto
        from st3 st2' st3' have "s2 \<subseteq> s3" by (auto dest: dedupe_loop_seen_mono)
        with k2 have "k \<in> s3" by blast
        moreover from eq k have "toString vb = Inr k" by simp
        ultimately have "dedupe_step rnd b st3 = Inr st3"
          unfolding st3' using b by (rule_tac dedupe_step_seen_before)
        with Inr st2 st3 show ?thesis by (simp add: dedupe_loop_append)
      qed
    qed
  qed
qed

lemma dedupe_later_duplicate:
  assumes "field_operand a = Some va" and "field_operand b = Some vb"
    and "toString va = toString vb"
  shows "dedupe rnd (pre @ a # mid @ b # post) = dedupe rnd (pre @ a # mid @ post)"
  unfolding dedupe_def using dedupe_loop_later_duplicate [OF assms] by simp

lemma map_filter_snoc:
  "List.map_filter f (xs @ [x]) = List.map_filter f xs @ (case f x of None \<Rightarrow> [] | Some y \<Rightarrow> [y])"
  by (simp add: List.map_filter_def split: option.splits)

lemma dedupe_step_keys_inv:
  "dedupe_step rnd c st = Inr st' \<Longrightarrow> keys_inv st \<Longrightarrow> keys_inv st'"
  by (cases st)
    (auto simp: dedupe_step_def key_operand_field keys_inv_def map_filter_snoc field_key_def
      split: option.splits sum.splits if_splits)

lemma dedupe_loop_keys_inv:
  "dedupe_loop rnd xs st = Inr st' \<Longrightarrow> keys_inv st \<Longrightarrow> keys_inv st'"
  by (induction xs arbitrary: st) (auto split: sum.splits dest: dedupe_step_keys_inv)

lemma dedupe_distinct_keys:
  "dedupe rnd xs = Inr ys \<Longrightarrow> distinct (List.map_filter field_key ys)"
proof -
  assume "dedupe rnd xs = Inr ys"
  then obtain s n where "dedupe_loop rnd xs ({}, [], 0) = Inr (s, ys, n)"
    by (auto simp: dedupe_def split: sum.splits)
  moreover have "keys_inv ({}, [], 0)" by (simp add: keys_inv_def List.map_filter_def)
  ultimately have "keys_inv (s, ys, n)" by (rule dedupe_loop_keys_inv)
  then show ?thesis by (simp add: keys_inv_def)
qed

lemma field_keys_Cons:
  "field_keys (c # cs) = (case field_key c of None \<Rightarrow> {} | Some k \<Rightarrow> {k}) \<union> field_keys cs"
  by (auto simp: field_keys_def List.map_filter_def split: option.splits)

lemma keyless_field_operand: "keyless c \<longleftrightarrow> field_operand c = None"
  by (simp add: keyless_def field_operand_def)

lemma dedupe_step_keyless:
  "keyless c \<Longrightarrow> rnd n \<notin> s \<Longrightarrow>
     dedupe_step rnd c (s, d, n) = Inr (insert (rnd n) s, d @ [c], Suc n)"
  by (simp add: dedupe_step_def key_operand_field keyless_field_operand)

lemma dedupe_step_keyed:
  "\<not> keyless c \<Longrightarrow> dedupe_step rnd c (s, d, n) = Inr (s', d', n') \<Longrightarrow>
     n' = n \<and> filter keyless d' = filter keyless d \<and> (\<exists>k. field_key c = Some k \<and> s' = insert k s)"
  by (auto simp: dedupe_step_def key_operand_field keyless_field_operand field_key_def
      split: option.splits sum.splits if_splits)

lemma dedupe_loop_keeps_keyless:
  "dedupe_loop rnd xs (s, d, n) = Inr (s', d', n') \<Longrightarrow>
   inj_on rnd {n ..< n + length (filter keyless xs)} \<Longrightarrow>
   (\<forall>j \<in> {n ..< n + length (filter keyless xs)}. rnd j \<notin> s \<union> field_keys xs) \<Longrightarrow>
   filter keyless d' = filter keyless d @ filter keyless xs"
proof (induction xs arbitrary: s d n)
  case Nil
  then show ?case by simp
next
  case (Cons c cs)
  show ?case
  proof (cases "keyless c")
    case True
    let ?k = "length (filter keyless cs)"
    from True Cons.prems(3) have fresh: "rnd n \<notin> s" by simp
    with True have step: "dedupe_step rnd c (s, d, n) = Inr (insert (rnd n) s, d @ [c], Suc n)"
      by (rule dedupe_step_keyless)
    with Cons.prems(1) have rest: "dedupe_loop rnd cs (insert (rnd n) s, d @ [c], Suc n) = Inr (s', d', n')"
      by simp
    from True Cons.prems(2) have inj: "inj_on rnd {n ..< Suc (n + ?k)}" by simp
    then have inj': "inj_on rnd {Suc n ..< Suc n + ?k}"
      by (rule inj_on_subset) auto
    have "\<forall>j \<in> {Suc n ..< Suc n + ?k}. rnd j \<notin> insert (rnd n) s \<union> field_keys cs"
    proof
      fix j assume j: "j \<in> {Suc n ..< Suc n + ?k}"
      then have jn: "j \<in> {n ..< Suc (n + ?k)}" "n \<in> {n ..< Suc (n + ?k)}" "j \<noteq> n" by auto
      with inj have "rnd j \<noteq> rnd n" by (auto dest: inj_onD)
      moreover from True Cons.prems(3) jn have "rnd j \<notin> s \<union> field_keys (c # cs)" by simp
      ultimately show "rnd j \<notin> insert (rnd n) s \<union> field_keys cs"
        by (auto simp: field_keys_Cons)
    qed
    from Cons.IH [OF rest inj' this] True show ?thesis by simp
  next
    case False
    let ?k = "length (filter keyless cs)"
    from Cons.prems(1) obtain s1 d1 n1 where
      step: "dedupe_step rnd c (s, d, n) = Inr (s1, d1, n1)"
      and rest: "dedupe_loop rnd cs (s1, d1, n1) = Inr (s', d', n')"
      by (auto split: sum.splits)
    from dedupe_step_keyed [OF False step] obtain k where
      n1: "n1 = n" and d1: "filter keyless d1 = filter keyless d"
      and k: "field_key c = Some k" and s1: "s1 = insert k s" by blast
    from False Cons.prems(2) have inj: "inj_on rnd {n1 ..< n1 + ?k}" by (simp add: n1)
    from False Cons.prems(3) k have
      "\<forall>j \<in> {n1 ..< n1 + ?k}. rnd j \<notin> s1 \<union> field_keys cs"
      by (auto simp: n1 s1 field_keys_Cons)
    from Cons.IH [OF rest inj this] False d1 show ?thesis by simp
  qed
qed

lemma field_keys_append: "field_keys (xs @ ys) = field_keys xs \<union> field_keys ys"
  by (simp add: field_keys_def List.map_filter_def)

lemma field_keys_single:
  "field_keys [c] = (case field_key c of None \<Rightarrow> {} | Some k \<Rightarrow> {k})"
  by (simp add: field_keys_def List.map_filter_def split: option.splits)

lemma dedupe_step_effect:
  assumes "dedupe_step rnd c (s, d, n) = Inr (s', d', n')"
  shows "(keyless c \<longrightarrow> s' = insert (rnd n) s \<and> n' = Suc n \<and> field_key c = None
            \<and> d' = (if rnd n \<in> s then d else d @ [c]))
       \<and> (\<not> keyless c \<longrightarrow> (\<exists>k. field_key c = Some k \<and> s' = insert k s \<and> n' = n
            \<and> d' = (if k \<in> s then d else d @ [c])))"
  using assms
  by (auto simp: dedupe_step_def key_operand_field keyless_field_operand field_key_def
      split: option.splits sum.splits if_splits)

lemma dedupe_loop_seen:
  "dedupe_loop rnd xs (s, d, n) = Inr (s', d', n') \<Longrightarrow>
     s' = s \<union> field_keys xs \<union> rnd ` {n ..< n + length (filter keyless xs)}
     \<and> n' = n + length (filter keyless xs)"
proof (induction xs arbitrary: s d n)
  case Nil
  then show ?case by (simp add: field_keys_def List.map_filter_def)
next
  case (Cons c cs)
  from Cons.prems obtain s1 d1 n1 where
    step: "dedupe_step rnd c (s, d, n) = Inr (s1, d1, n1)"
    and rest: "dedupe_loop rnd cs (s1, d1, n1) = Inr (s', d', n')"
    by (auto split: sum.splits)
  note ih = Cons.IH [OF rest]
  show ?case
  proof (cases "keyless c")
    case True
    with dedupe_step_effect [OF step] have
      e: "s1 = insert (rnd n) s" "n1 = Suc n" "field_key c = None" by auto
    have "{n ..< Suc (n + length (filter keyless cs))}
        = insert n {Suc n ..< Suc n + length (filter keyless cs)}" by auto
    with ih e True show ?thesis by (auto simp: field_keys_Cons)
  next
    case False
    with dedupe_step_effect [OF step] obtain k where
      e: "field_key c = Some k" "s1 = insert k s" "n1 = n" by auto
    with ih False show ?thesis by (auto simp: field_keys_Cons)
  qed
qed

lemma dedupe_loop_extends:
  "dedupe_loop rnd xs (s, d, n) = Inr (s', d', n') \<Longrightarrow> \<exists>rest. d' = d @ rest"
proof (induction xs arbitrary: s d n)
  case Nil
  then show ?case by simp
next
  case (Cons c cs)
  from Cons.prems obtain s1 d1 n1 where
    step: "dedupe_step rnd c (s, d, n) = Inr (s1, d1, n1)"
    and rest: "dedupe_loop rnd cs (s1, d1, n1) = Inr (s', d', n')"
    by (auto split: sum.splits)
  from dedupe_step_effect [OF step] have "d1 = d \<or> d1 = d @ [c]"
    by (cases "keyless c") (auto split: if_splits)
  with Cons.IH [OF rest] show ?case by auto
qed

lemma dedupe_loop_covered:
  "dedupe_loop rnd xs (s, d, n) = Inr (s', d', n') \<Longrightarrow>
     s \<subseteq> field_keys d \<union> rnd ` {..< n} \<Longrightarrow> s' \<subseteq> field_keys d' \<union> rnd ` {..< n'}"
proof (induction xs arbitrary: s d n)
  case Nil
  then show ?case by simp
next
  case (Cons c cs)
  from Cons.prems(1) obtain s1 d1 n1 where
    step: "dedupe_step rnd c (s, d, n) = Inr (s1, d1, n1)"
    and rest: "dedupe_loop rnd cs (s1, d1, n1) = Inr (s', d', n')"
    by (auto split: sum.splits)
  have "s1 \<subseteq> field_keys d1 \<union> rnd ` {..< n1}"
  proof (cases "keyless c")
    case True
    with dedupe_step_effect [OF step] have
      "s1 = insert (rnd n) s" "n1 = Suc n" "d1 = d \<or> d1 = d @ [c]"
      by (auto split: if_splits)
    with Cons.prems(2) show ?thesis
      by (auto simp: field_keys_append lessThan_Suc)
  next
    case False
    with dedupe_step_effect [OF step] obtain k where
      e: "field_key c = Some k" "s1 = insert k s" "n1 = n" "d1 = (if k \<in> s then d else d @ [c])"
      by auto
    with Cons.prems(2) show ?thesis
      by (auto simp: field_keys_append field_keys_single split: if_splits)
  qed
  from Cons.IH [OF rest this] show ?case .
qed

lemma dedupe_loop_pre:
  assumes "dedupe_loop rnd pre ({}, [], 0) = Inr (s, d, n)"
  shows "s = keys_of rnd pre"
  using dedupe_loop_seen [OF assms] by (simp add: keys_of_def atLeast0LessThan)

lemma dedupe_keys_reach_output:
  assumes "dedupe rnd xs = Inr ys"
  shows "field_keys xs \<subseteq> field_keys ys \<union> range rnd"
proof -
  from assms obtain s n where l: "dedupe_loop rnd xs ({}, [], 0) = Inr (s, ys, n)"
    by (auto simp: dedupe_def split: sum.splits)
  from dedupe_loop_seen [OF l] have "field_keys xs \<subseteq> s" by auto
  moreover from dedupe_loop_covered [OF l] have "s \<subseteq> field_keys ys \<union> rnd ` {..< n}"
    by (simp add: field_keys_def List.map_filter_def)
  ultimately show ?thesis by blast
qed

lemma dedupe_first_kept:
  assumes fk: "field_key a = Some k" and new: "k \<notin> keys_of rnd pre"
    and run: "dedupe rnd (pre @ a # post) = Inr zs"
  shows "\<exists>ys rest. dedupe rnd pre = Inr ys \<and> zs = ys @ a # rest"
proof -
  from run obtain s' n' where
    l: "dedupe_loop rnd (pre @ a # post) ({}, [], 0) = Inr (s', zs, n')"
    by (auto simp: dedupe_def split: sum.splits)
  then obtain s d n where p: "dedupe_loop rnd pre ({}, [], 0) = Inr (s, d, n)"
    and r: "dedupe_loop rnd (a # post) (s, d, n) = Inr (s', zs, n')"
    by (auto simp: dedupe_loop_append split: sum.splits)
  from r obtain s1 d1 n1 where
    step: "dedupe_step rnd a (s, d, n) = Inr (s1, d1, n1)"
    and rest: "dedupe_loop rnd post (s1, d1, n1) = Inr (s', zs, n')"
    by (auto split: sum.splits)
  from fk have nk: "\<not> keyless a"
    by (auto simp: keyless_field_operand field_key_def split: option.splits)
  from new dedupe_loop_pre [OF p] have "k \<notin> s" by simp
  with dedupe_step_effect [OF step] nk fk have "d1 = d @ [a]" by auto
  with dedupe_loop_extends [OF rest] obtain rest' where "zs = d @ a # rest'" by auto
  moreover from p have "dedupe rnd pre = Inr d" by (simp add: dedupe_def)
  ultimately show ?thesis by blast
qed

lemma dedupe_seen_dropped:
  assumes fk: "field_key a = Some k" and old: "k \<in> keys_of rnd pre"
  shows "dedupe rnd (pre @ a # post) = dedupe rnd (pre @ post)"
proof (cases "dedupe_loop rnd pre ({}, [], 0)")
  case (Inl e)
  then show ?thesis by (simp add: dedupe_def dedupe_loop_append)
next
  case (Inr st)
  obtain s d n where st: "st = (s, d, n)" by (cases st) auto
  from Inr st dedupe_loop_pre have "s = keys_of rnd pre" by simp
  with old have ks: "k \<in> s" by simp
  from fk obtain v where v: "field_operand a = Some v" "toString v = Inr k"
    by (auto simp: field_key_def split: option.splits sum.splits)
  from dedupe_step_seen_before [OF v ks] have "dedupe_step rnd a (s, d, n) = Inr (s, d, n)" .
  with Inr st show ?thesis by (simp add: dedupe_def dedupe_loop_append)
qed

lemma field_key_url: "truthy (url a) \<Longrightarrow> toString (url a) = Inr k \<Longrightarrow> field_key a = Some k"
  by (simp add: field_key_def field_operand_def)


section \<open>Adapters: absorbed failures\<close>


lemma try_catch_Inl: "try_catch (Inl e) h = h e"
  by (simp add: try_catch_def)

lemma try_catch_Inr: "try_catch (Inr v) h = Inr v"
  by (simp add: try_catch_def)

lemma and_then_Inl: "and_then (Inl e) f = Inl e"
  by (simp add: and_then_def)

lemma and_then_Inr: "and_then (Inr v) f = f v"
  by (simp add: and_then_def)

lemma request_fails_cases:
  assumes "request_fails read x"
  obtains e where "x = Inl e"
  | r where "x = Inr r" "\<not> r_ok r"
  | r e where "x = Inr r" "r_ok r" "read r = Inl e"
  using assms by (cases x) (auto simp: request_fails_def isl_def)


lemma getClassCentral_fails:
  assumes "request_fails r_json (fetch w cc_url [])"
  shows "getClassCentral w = Inr []"
  using assms
  by (cases rule: request_fails_cases)
    (simp_all add: getClassCentral_def and_then_Inl and_then_Inr try_catch_Inl try_catch_Inr)

lemma getGeeksForGeeks_fails:
  assumes "request_fails r_text (fetch w gfg_url [])"
  shows "getGeeksForGeeks w q = Inr []"
  using assms
  by (cases rule: request_fails_cases)
    (simp_all add: getGeeksForGeeks_def and_then_Inl and_then_Inr try_catch_Inl try_catch_Inr)


lemma getFreeCodeCamp_fails:
  assumes "request_fails r_json (fetch w fcc_url [])"
  shows "getFreeCodeCamp w q = Inr [fcc_generic_entry] \<or> getFreeCodeCamp w q = Inr [fcc_fallback_entry]"
  using assms
  by (cases rule: request_fails_cases)
    (simp_all add: getFreeCodeCamp_def and_then_Inl and_then_Inr try_catch_Inl try_catch_Inr)

lemma getFreeCodeCamp_one:
  "\<exists>c. getFreeCodeCamp w q = Inr [c] \<and> platform c = ''freeCodeCamp''"
proof (cases "fetch w fcc_url []")
  case (Inl e)
  then show ?thesis
    by (simp add: getFreeCodeCamp_def and_then_Inl try_catch_Inl fcc_fallback_entry_def fcc_entry_def)
next
  case (Inr r)
  show ?thesis
  proof (cases "r_ok r")
    case False
    with Inr show ?thesis
      by (simp add: getFreeCodeCamp_def and_then_Inr try_catch_Inr fcc_generic_entry_def fcc_entry_def)
  next
    case True
    show ?thesis
    proof (cases "r_json r")
      case (Inl e)
      with Inr True show ?thesis
        by (simp add: getFreeCodeCamp_def and_then_Inr and_then_Inl try_catch_Inl
            fcc_fallback_entry_def fcc_entry_def)
    next
      case data: (Inr data)
      with Inr True show ?thesis
        by (cases "nullish data")
          (simp_all add: getFreeCodeCamp_def and_then_Inr try_catch_Inl try_catch_Inr
            fcc_fallback_entry_def fcc_entry_def)
    qed
  qed
qed

section \<open>The feed loop\<close>

lemma str_includes_iff: "str_includes s q \<longleftrightarrow> (\<exists>ps ss. s = ps @ q @ ss)"
proof (induction s)
  case Nil
  then show ?case by simp
next
  case (Cons c cs)
  show ?case
  proof
    assume "str_includes (c # cs) q"
    then consider "take (length q) (c # cs) = q" | "str_includes cs q" by auto
    then show "\<exists>ps ss. c # cs = ps @ q @ ss"
    proof cases
      case 1
      then have "c # cs = [] @ q @ drop (length q) (c # cs)"
        by (metis append_Nil append_take_drop_id)
      then show ?thesis by blast
    next
      case 2
      with Cons.IH obtain ps ss where "cs = ps @ q @ ss" by blast
      then have "c # cs = (c # ps) @ q @ ss" by simp
      then show ?thesis by blast
    qed
  next
    assume "\<exists>ps ss. c # cs = ps @ q @ ss"
    then obtain ps ss where eq: "c # cs = ps @ q @ ss" by blast
    show "str_includes (c # cs) q"
    proof (cases ps)
      case Nil
      with eq have "take (length q) (c # cs) = q" by simp
      then show ?thesis by simp
    next
      case (Cons p ps')
      with eq have "cs = ps' @ q @ ss" by simp
      with Cons.IH have "str_includes cs q" by blast
      then show ?thesis by simp
    qed
  qed
qed

lemma gfg_loop_None: "itemRe_exec s = None \<Longrightarrow> gfg_loop query s items = items"
  by (subst gfg_loop.simps) simp

lemma gfg_loop_Some:
  assumes "itemRe_exec s = Some (m, rest)"
  shows "gfg_loop query s items =
     (if query \<noteq> []
         \<and> \<not> str_includes (toLowerCase (trim (stripTags (fst m)))) (toLowerCase query)
         \<and> \<not> str_includes (toLowerCase (trim (stripTags (snd (snd m))))) (toLowerCase query)
      then gfg_loop query rest items
      else if length (items @ [gfg_item (trim (stripTags (fst m))) (trim (stripTags (snd (snd m))))
                                 (trim (stripTags (fst (snd m))))]) \<ge> 20
           then items @ [gfg_item (trim (stripTags (fst m))) (trim (stripTags (snd (snd m))))
                           (trim (stripTags (fst (snd m))))]
           else gfg_loop query rest
                  (items @ [gfg_item (trim (stripTags (fst m))) (trim (stripTags (snd (snd m))))
                              (trim (stripTags (fst (snd m))))]))"
  by (subst gfg_loop.simps) (simp only: assms option.case prod.case Let_def)

lemma gfg_loop_length:
  "length items < 20 \<Longrightarrow> length (gfg_loop query s items) \<le> 20"
proof (induction query s items rule: gfg_loop.induct)
  case (1 query s items)
  show ?case
  proof (cases "itemRe_exec s")
    case None
    with "1.prems" show ?thesis by (simp add: gfg_loop_None)
  next
    case (Some x)
    obtain m rest where x: "x = (m, rest)" by (cases x) auto
    let ?t = "trim (stripTags (fst m))"
    let ?link = "trim (stripTags (fst (snd m)))"
    let ?desc = "trim (stripTags (snd (snd m)))"
    let ?skip = "query \<noteq> [] \<and> \<not> str_includes (toLowerCase ?t) (toLowerCase query)
                 \<and> \<not> str_includes (toLowerCase ?desc) (toLowerCase query)"
    show ?thesis
    proof (cases ?skip)
      case True
      from Some x have "itemRe_exec s = Some (m, rest)" by simp
      from gfg_loop_Some [OF this, of query items] True
      have "gfg_loop query s items = gfg_loop query rest items" by simp
      moreover from "1.IH"(1) [OF Some x [symmetric] refl refl refl True] "1.prems"
      have "length (gfg_loop query rest items) \<le> 20" by simp
      ultimately show ?thesis by simp
    next
      case False
      let ?items' = "items @ [gfg_item ?t ?desc ?link]"
      show ?thesis
      proof (cases "length ?items' \<ge> 20")
        case True
        from Some x have "itemRe_exec s = Some (m, rest)" by simp
        from gfg_loop_Some [OF this, of query items] False True
        have "gfg_loop query s items = ?items'" by simp
        with "1.prems" show ?thesis by simp
      next
        case short: False
        from Some x have "itemRe_exec s = Some (m, rest)" by simp
        from gfg_loop_Some [OF this, of query items] False short
        have "gfg_loop query s items = gfg_loop query rest ?items'" by simp
        moreover from "1.IH"(2) [OF Some x [symmetric] refl refl refl False short] short
        have "length (gfg_loop query rest ?items') \<le> 20" by simp
        ultimately show ?thesis by simp
      qed
    qed
  qed
qed

lemma gfg_loop_match:
  "\<forall>c \<in> set items. gfg_match query c \<Longrightarrow> \<forall>c \<in> set (gfg_loop query s items). gfg_match query c"
proof (induction query s items rule: gfg_loop.induct)
  case (1 query s items)
  show ?case
  proof (cases "itemRe_exec s")
    case None
    with "1.prems" show ?thesis by (simp add: gfg_loop_None)
  next
    case (Some x)
    obtain m rest where x: "x = (m, rest)" by (cases x) auto
    let ?t = "trim (stripTags (fst m))"
    let ?link = "trim (stripTags (fst (snd m)))"
    let ?desc = "trim (stripTags (snd (snd m)))"
    let ?skip = "query \<noteq> [] \<and> \<not> str_includes (toLowerCase ?t) (toLowerCase query)
                 \<and> \<not> str_includes (toLowerCase ?desc) (toLowerCase query)"
    show ?thesis
    proof (cases ?skip)
      case True
      from Some x have "itemRe_exec s = Some (m, rest)" by simp
      from gfg_loop_Some [OF this, of query items] True
      have "gfg_loop query s items = gfg_loop query rest items" by simp
      moreover from "1.IH"(1) [OF Some x [symmetric] refl refl refl True] "1.prems"
      have "\<forall>c \<in> set (gfg_loop query rest items). gfg_match query c" by simp
      ultimately show ?thesis by simp
    next
      case False
      let ?items' = "items @ [gfg_item ?t ?desc ?link]"
      from False have "gfg_match query (gfg_item ?t ?desc ?link)"
        unfolding gfg_match_def by blast
      with "1.prems" have all': "\<forall>c \<in> set ?items'. gfg_match query c" by simp
      show ?thesis
      proof (cases "length ?items' \<ge> 20")
        case True
        from Some x have "itemRe_exec s = Some (m, rest)" by simp
        from gfg_loop_Some [OF this, of query items] False True
        have "gfg_loop query s items = ?items'" by simp
        with all' show ?thesis by simp
      next
        case short: False
        from Some x have "itemRe_exec s = Some (m, rest)" by simp
        from gfg_loop_Some [OF this, of query items] False short
        have "gfg_loop query s items = gfg_loop query rest ?items'" by simp
        moreover from "1.IH"(2) [OF Some x [symmetric] refl refl refl False short] all'
        have "\<forall>c \<in> set (gfg_loop query rest ?items'). gfg_match query c" by simp
        ultimately show ?thesis by simp
      qed
    qed
  qed
qed

lemma getGeeksForGeeks_cases:
  "getGeeksForGeeks w query = Inr [] \<or> (\<exists>s. getGeeksForGeeks w query = Inr (gfg_loop query s []))"
proof (cases "fetch w gfg_url []")
  case (Inl e)
  then show ?thesis by (simp add: getGeeksForGeeks_def and_then_Inl try_catch_Inl)
next
  case (Inr r)
  then show ?thesis
    by (cases "r_text r"; cases "r_ok r")
      (auto simp: getGeeksForGeeks_def and_then_Inl and_then_Inr try_catch_Inl try_catch_Inr)
qed

lemma getGeeksForGeeks_result:
  assumes "getGeeksForGeeks w query = Inr xs"
  shows "length xs \<le> 20 \<and> (\<forall>c \<in> set xs. gfg_match query c)"
proof -
  from getGeeksForGeeks_cases [of w query] assms
  consider "xs = []" | s where "xs = gfg_loop query s []" by auto
  then show ?thesis
  proof cases
    case 1
    then show ?thesis by simp
  next
    case 2
    then show ?thesis using gfg_loop_length [of "[]" query s] gfg_loop_match [of "[]" query s]
      by simp
  qed
qed

section \<open>Platforms and the handler\<close>

lemma and_then_Inr_iff: "and_then m f = Inr y \<longleftrightarrow> (\<exists>v. m = Inr v \<and> f v = Inr y)"
  by (cases m) (simp_all add: and_then_def)

lemma try_catch_empty_cases:
  "try_catch b (\<lambda>err. Inr []) = Inr ys \<Longrightarrow> ys = [] \<or> b = Inr ys"
  by (cases b) (auto simp: try_catch_def)

lemma map_throw_all:
  "map_throw f xs = Inr ys \<Longrightarrow> (\<And>x y. f x = Inr y \<Longrightarrow> P y) \<Longrightarrow> \<forall>y \<in> set ys. P y"
proof (induction xs arbitrary: ys)
  case Nil
  then show ?case by simp
next
  case (Cons x xs)
  from Cons.prems(1) obtain y ys' where
    y: "f x = Inr y" and ys': "map_throw f xs = Inr ys'" and ys: "ys = y # ys'"
    by (auto simp: and_then_Inr_iff)
  from Cons.IH [OF ys' Cons.prems(2)] Cons.prems(2) [OF y] ys show ?case by simp
qed

lemma array_map_all:
  assumes "array_map f v = Inr ys" and "\<And>x y. f x = Inr y \<Longrightarrow> P y"
  shows "\<forall>y \<in> set ys. P y"
proof (cases v)
  case (JArr xs)
  with assms(1) have "map_throw f xs = Inr ys" by simp
  then show ?thesis using assms(2) by (rule map_throw_all)
qed (use assms(1) in simp_all)

lemma coursera_item_platform: "coursera_item c = Inr y \<Longrightarrow> platform y = ''Coursera''"
  by (auto simp: coursera_item_def and_then_Inr_iff split: if_splits)

lemma classcentral_item_platform: "classcentral_item c = Inr y \<Longrightarrow> platform y = ''Class Central''"
  by (auto simp: classcentral_item_def split: if_splits)

lemma udemy_item_platform: "udemy_item c = Inr y \<Longrightarrow> platform y = ''Udemy''"
  by (auto simp: udemy_item_def split: if_splits)

lemma getCoursera_platform:
  assumes "getCoursera w q = Inr ys"
  shows "\<forall>c \<in> set ys. platform c = ''Coursera''"
proof -
  from assms [unfolded getCoursera_def] have "ys = [] \<or>
    (\<exists>v. array_map coursera_item v = Inr ys)"
    by (auto dest!: try_catch_empty_cases simp: and_then_Inr_iff split: if_splits)
  then show ?thesis
    by (auto dest: array_map_all [where P = "\<lambda>y. platform y = ''Coursera''"]
        simp: coursera_item_platform)
qed

lemma getClassCentral_platform:
  assumes "getClassCentral w = Inr ys"
  shows "\<forall>c \<in> set ys. platform c = ''Class Central''"
proof -
  from assms [unfolded getClassCentral_def] have "ys = [] \<or>
    (\<exists>v. array_map classcentral_item v = Inr ys)"
    by (auto dest!: try_catch_empty_cases simp: and_then_Inr_iff split: if_splits)
  then show ?thesis
    by (auto dest: array_map_all [where P = "\<lambda>y. platform y = ''Class Central''"]
        simp: classcentral_item_platform)
qed

lemma getUdemy_platform:
  assumes "getUdemy w e q = Inr ys"
  shows "\<forall>c \<in> set ys. platform c = ''Udemy''"
proof -
  from assms [unfolded getUdemy_def Let_def] have "ys = [] \<or>
    (\<exists>v. array_map udemy_item v = Inr ys)"
    by (auto dest!: try_catch_empty_cases simp: and_then_Inr_iff split: if_splits)
  then show ?thesis
    by (auto dest: array_map_all [where P = "\<lambda>y. platform y = ''Udemy''"]
        simp: udemy_item_platform)
qed

lemma getFreeCodeCamp_platform:
  assumes "getFreeCodeCamp w q = Inr ys"
  shows "\<forall>c \<in> set ys. platform c = ''freeCodeCamp''"
  using getFreeCodeCamp_one [of w q] assms by auto

lemma getGeeksForGeeks_platform:
  assumes "getGeeksForGeeks w q = Inr ys"
  shows "\<forall>c \<in> set ys. platform c = ''GeeksforGeeks''"
  using getGeeksForGeeks_result [OF assms] by (auto simp: gfg_match_def gfg_item_def)

lemma call_source_platform:
  assumes "call_source w e q src = Inr ys" and "src \<noteq> Udemy"
  shows "\<forall>c \<in> set ys. platform c \<noteq> ''Udemy''"
proof (cases src)
  case Coursera
  with assms getCoursera_platform [of w q ys] show ?thesis by auto
next
  case ClassCentral
  with assms getClassCentral_platform [of w ys] show ?thesis by auto
next
  case FreeCodeCamp
  with assms getFreeCodeCamp_platform [of w q ys] show ?thesis by auto
next
  case GeeksForGeeks
  with assms getGeeksForGeeks_platform [of w q ys] show ?thesis by auto
next
  case Udemy
  with assms show ?thesis by simp
qed

lemma fulfilled_values_platform:
  assumes "Udemy \<notin> set srcs"
  shows "\<forall>c \<in> set (fulfilled_values (map (call_source w e q) srcs)). platform c \<noteq> ''Udemy''"
  using assms
proof (induction srcs)
  case Nil
  then show ?case by (simp add: fulfilled_values_def)
next
  case (Cons src srcs)
  then have ih: "\<forall>c \<in> set (fulfilled_values (map (call_source w e q) srcs)). platform c \<noteq> ''Udemy''"
    and ne: "src \<noteq> Udemy" by auto
  have "\<forall>c \<in> set (case call_source w e q src of Inl e \<Rightarrow> [] | Inr v \<Rightarrow> v). platform c \<noteq> ''Udemy''"
    using call_source_platform [OF _ ne, of w e q] by (cases "call_source w e q src") auto
  with ih show ?case by (auto simp: fulfilled_values_def)
qed

lemma dedupe_step_subset:
  "dedupe_step rnd c (s, d, n) = Inr (s', d', n') \<Longrightarrow> set d' \<subseteq> insert c (set d)"
  by (auto simp: dedupe_step_def split: prod.splits sum.splits if_splits)

lemma dedupe_loop_subset:
  "dedupe_loop rnd xs (s, d, n) = Inr (s', d', n') \<Longrightarrow> set d' \<subseteq> set d \<union> set xs"
proof (induction xs arbitrary: s d n)
  case Nil
  then show ?case by simp
next
  case (Cons c cs)
  from Cons.prems obtain s1 d1 n1 where
    st: "dedupe_step rnd c (s, d, n) = Inr (s1, d1, n1)"
    and rest: "dedupe_loop rnd cs (s1, d1, n1) = Inr (s', d', n')"
    by (auto split: sum.splits)
  from dedupe_step_subset [OF st] Cons.IH [OF rest] show ?case by auto
qed

lemma dedupe_subset:
  assumes "dedupe rnd xs = Inr ys"
  shows "set ys \<subseteq> set xs"
proof -
  from assms obtain s n where "dedupe_loop rnd xs ({}, [], 0) = Inr (s, ys, n)"
    by (auto simp: dedupe_def split: sum.splits)
  from dedupe_loop_subset [OF this] show ?thesis by simp
qed

lemma handler_cases:
  obtains (ok) deduped where
      "dedupe (math_random w)
         (fulfilled_values (map (call_source w e (trim (q_string (query_q req)))) (selected_sources e)))
       = Inr deduped"
      "handler w e req res =
         json (Courses deduped)
           (status 200
             (setHeader ''Content-Type'' ''application/json; charset=utf-8''
               (setHeader ''Access-Control-Allow-Origin'' ''*''
                 (setHeader ''Cache-Control'' ''s-maxage=3600, stale-while-revalidate=59'' res))))"
  | (thrown) err where
      "dedupe (math_random w)
         (fulfilled_values (map (call_source w e (trim (q_string (query_q req)))) (selected_sources e)))
       = Inl err"
      "handler w e req res =
         json (ErrorObject ''Failed to fetch aggregated courses'')
           (status 500 (setHeader ''Access-Control-Allow-Origin'' ''*'' res))"
proof (cases "dedupe (math_random w)
         (fulfilled_values (map (call_source w e (trim (q_string (query_q req)))) (selected_sources e)))")
  case (Inl err)
  then show ?thesis by (intro thrown [of err]) (simp_all add: handler_def Let_def)
next
  case (Inr deduped)
  then show ?thesis by (intro ok [of deduped]) (simp_all add: handler_def Let_def)
qed

lemma handler_body_courses:
  assumes "body (handler w e req res) = Some (Courses ys)"
  shows "dedupe (math_random w)
           (fulfilled_values (map (call_source w e (trim (q_string (query_q req))))
              (selected_sources e))) = Inr ys"
proof (cases rule: handler_cases [of w e req res])
  case (ok deduped)
  with assms show ?thesis by (simp add: json_def status_def setHeader_def)
next
  case (thrown err)
  with assms show ?thesis by (simp add: json_def status_def setHeader_def)
qed

lemma fulfilled_values_append:
  "fulfilled_values (xs @ ys) = fulfilled_values xs @ fulfilled_values ys"
  by (simp add: fulfilled_values_def)

section \<open>Deduplication: the claims\<close>

text \<open>
  Claim C2, as stated, fails in two ways. The first record of a group with the same url is
  itself dropped when an earlier record already has that key string: after a record
  titled \<open>Python\<close> neither of two records with the url \<open>Python\<close> is in the output. And
  an identical url that is falsy is no key at all: two records with the url \<open>""\<close> and
  different titles are both kept.
\<close>

theorem dedupe_first_of_group_dropped:
  "dedupe (\<lambda>n. ''0.5'')
     [rec_of JNull (JStr ''Python'') ''Udemy'',
      rec_of (JStr ''Python'') (JStr ''A'') ''Coursera'',
      rec_of (JStr ''Python'') (JStr ''B'') ''Class Central'']
   = Inr [rec_of JNull (JStr ''Python'') ''Udemy'']
   \<and> dedupe (\<lambda>n. ''0.5'')
     [rec_of (JStr []) (JStr ''A'') ''Coursera'', rec_of (JStr []) (JStr ''B'') ''Udemy'']
   = Inr [rec_of (JStr []) (JStr ''A'') ''Coursera'', rec_of (JStr []) (JStr ''B'') ''Udemy'']"
  by (simp add: dedupe_def dedupe_step_def key_operand_def rec_of_def)

text \<open>
  Claim C2, amended. After deduplication no two records of the output share a key that
  comes from their url or title: the list of the field keys of the output has no
  repetition. A key is the url when it is present (truthy), else the title, else the
  random fallback. Among records with the same present url no record but the first is in
  the output: a later one is discarded, that is, the output is the output of the sequence
  without it, whatever stands before, between and after the two. The first one is in the
  output, right after what the records before it contribute, when its key string is not
  a key of an earlier record, and it is discarded like a later one when it is. Two such
  records alone give the first one.
\<close>

theorem dedupe_keys_unique:
  "(dedupe rnd xs = Inr ys \<longrightarrow> distinct (List.map_filter field_key ys))
   \<and> (truthy (url a) \<and> url b = url a \<longrightarrow>
        dedupe rnd (pre @ a # mid @ b # post) = dedupe rnd (pre @ a # mid @ post))
   \<and> (truthy (url a) \<and> toString (url a) = Inr k \<and> k \<notin> keys_of rnd pre
        \<and> dedupe rnd (pre @ a # post) = Inr zs \<longrightarrow>
        (\<exists>ys' rest. dedupe rnd pre = Inr ys' \<and> zs = ys' @ a # rest))
   \<and> (truthy (url a) \<and> toString (url a) = Inr k \<and> k \<in> keys_of rnd pre \<longrightarrow>
        dedupe rnd (pre @ a # post) = dedupe rnd (pre @ post))
   \<and> (truthy (url a) \<and> url b = url a \<and> toString (url a) = Inr k \<longrightarrow>
        dedupe rnd [a, b] = Inr [a])"
proof (intro conjI impI)
  assume "dedupe rnd xs = Inr ys"
  then show "distinct (List.map_filter field_key ys)" by (rule dedupe_distinct_keys)
next
  assume h: "truthy (url a) \<and> url b = url a"
  then have "field_operand a = Some (url a)" "field_operand b = Some (url a)"
    by (simp_all add: field_operand_def)
  then show "dedupe rnd (pre @ a # mid @ b # post) = dedupe rnd (pre @ a # mid @ post)"
    by (rule dedupe_later_duplicate) simp
next
  assume h: "truthy (url a) \<and> toString (url a) = Inr k \<and> k \<notin> keys_of rnd pre
        \<and> dedupe rnd (pre @ a # post) = Inr zs"
  then have "field_key a = Some k" by (simp add: field_key_url)
  with h show "\<exists>ys' rest. dedupe rnd pre = Inr ys' \<and> zs = ys' @ a # rest"
    by (blast intro: dedupe_first_kept)
next
  assume h: "truthy (url a) \<and> toString (url a) = Inr k \<and> k \<in> keys_of rnd pre"
  then have "field_key a = Some k" by (simp add: field_key_url)
  with h show "dedupe rnd (pre @ a # post) = dedupe rnd (pre @ post)"
    by (blast intro: dedupe_seen_dropped)
next
  assume h: "truthy (url a) \<and> url b = url a \<and> toString (url a) = Inr k"
  then have "field_operand a = Some (url a)" "field_operand b = Some (url a)"
    by (simp_all add: field_operand_def)
  then have "dedupe rnd ([] @ a # [] @ b # []) = dedupe rnd ([] @ a # [] @ [])"
    by (rule dedupe_later_duplicate) simp
  moreover from h have "dedupe rnd [a] = Inr [a]"
    by (simp add: dedupe_def dedupe_step_def key_operand_def)
  ultimately show "dedupe rnd [a, b] = Inr [a]" by simp
qed

text \<open>
  Three records, the third repeating the url of the second; and a url that is the title of
  an earlier record.
\<close>

theorem dedupe_keys_unique_witness:
  "dedupe (\<lambda>n. ''0.5'')
     [rec_of JNull (JStr ''Two'') ''Class Central'',
      rec_of (JStr ''https://a.org/1'') (JStr ''One'') ''Coursera'',
      rec_of (JStr ''https://a.org/1'') (JStr ''Uno'') ''Udemy'']
   = Inr [rec_of JNull (JStr ''Two'') ''Class Central'',
          rec_of (JStr ''https://a.org/1'') (JStr ''One'') ''Coursera'']
   \<and> ''https://a.org/1'' \<notin> keys_of (\<lambda>n. ''0.5'') [rec_of JNull (JStr ''Two'') ''Class Central'']
   \<and> distinct (List.map_filter field_key
        [rec_of JNull (JStr ''Two'') ''Class Central'',
         rec_of (JStr ''https://a.org/1'') (JStr ''One'') ''Coursera''])
   \<and> ''Python'' \<in> keys_of (\<lambda>n. ''0.5'') [rec_of JNull (JStr ''Python'') ''Udemy'']
   \<and> dedupe (\<lambda>n. ''0.5'')
        [rec_of JNull (JStr ''Python'') ''Udemy'',
         rec_of (JStr ''Python'') (JStr ''A'') ''Coursera'']
      = dedupe (\<lambda>n. ''0.5'') [rec_of JNull (JStr ''Python'') ''Udemy'']
   \<and> dedupe (\<lambda>n. ''0.5'')
        [rec_of (JStr ''https://a.org/1'') (JStr ''One'') ''Coursera'',
         rec_of (JStr ''https://a.org/1'') (JStr ''Uno'') ''Udemy'']
      = Inr [rec_of (JStr ''https://a.org/1'') (JStr ''One'') ''Coursera'']"
  using dedupe_keys_unique
    [of "\<lambda>n. ''0.5''"
        "[rec_of JNull (JStr ''Two'') ''Class Central'',
          rec_of (JStr ''https://a.org/1'') (JStr ''One'') ''Coursera'',
          rec_of (JStr ''https://a.org/1'') (JStr ''Uno'') ''Udemy'']"
        "[rec_of JNull (JStr ''Two'') ''Class Central'',
          rec_of (JStr ''https://a.org/1'') (JStr ''One'') ''Coursera'']"
        "rec_of (JStr ''https://a.org/1'') (JStr ''One'') ''Coursera''"
        "rec_of (JStr ''https://a.org/1'') (JStr ''Uno'') ''Udemy''"
        "[rec_of JNull (JStr ''Two'') ''Class Central'']" "[]" "[]" "''https://a.org/1''"
        "[rec_of JNull (JStr ''Two'') ''Class Central'',
          rec_of (JStr ''https://a.org/1'') (JStr ''One'') ''Coursera'']"]
    dedupe_keys_unique
    [of "\<lambda>n. ''0.5''" "[]" "[]"
        "rec_of (JStr ''Python'') (JStr ''A'') ''Coursera''"
        "rec_of (JStr ''Python'') (JStr ''A'') ''Coursera''"
        "[rec_of JNull (JStr ''Python'') ''Udemy'']" "[]" "[]" "''Python''" "[]"]
  by (simp add: dedupe_def dedupe_step_def key_operand_def rec_of_def keys_of_def field_keys_def
      field_key_def field_operand_def List.map_filter_def keyless_def)

text \<open>
  Claim C8, as stated, fails: the fallback key is the number \<^verbatim>\<open>Math.random\<close> returns, and
  nothing makes two calls return different numbers, or a number that differs from every
  title. With two equal draws the second of two records without url and title is dropped;
  with the draw \<open>0.5\<close> a record without url and title is dropped after a record titled
  \<open>0.5\<close>.
\<close>

theorem dedupe_random_key_collides:
  "dedupe (\<lambda>n. ''0.5'') [rec_of JNull JNull ''Coursera'', rec_of JNull JNull ''Udemy'']
     = Inr [rec_of JNull JNull ''Coursera'']
   \<and> keyless (rec_of JNull JNull ''Coursera'') \<and> keyless (rec_of JNull JNull ''Udemy'')
   \<and> dedupe (\<lambda>n. if n = 0 then ''0.5'' else ''0.25'')
        [rec_of JNull (JStr ''0.5'') ''Class Central'', rec_of JNull JNull ''Coursera'',
         rec_of JNull JNull ''Udemy'']
     = Inr [rec_of JNull (JStr ''0.5'') ''Class Central'', rec_of JNull JNull ''Udemy'']"
  by (simp add: dedupe_def dedupe_step_def key_operand_def rec_of_def keyless_def)

text \<open>
  Claim C8, amended. When the numbers drawn for the records that have neither a url nor a
  title are pairwise different and differ from every url or title key of the input, each
  such record is in the output: the output has the same records without url and title as
  the input, in the same order.
\<close>

theorem dedupe_keeps_keyless_records:
  assumes "dedupe rnd xs = Inr ys"
    and "inj_on rnd {..< length (filter keyless xs)}"
    and "\<forall>j < length (filter keyless xs). rnd j \<notin> field_keys xs"
  shows "filter keyless ys = filter keyless xs"
proof -
  from assms(1) obtain s n where l: "dedupe_loop rnd xs ({}, [], 0) = Inr (s, ys, n)"
    by (auto simp: dedupe_def split: sum.splits)
  from assms(2) have "inj_on rnd {0 ..< 0 + length (filter keyless xs)}"
    by (simp add: atLeast0LessThan)
  moreover from assms(3) have
    "\<forall>j \<in> {0 ..< 0 + length (filter keyless xs)}. rnd j \<notin> {} \<union> field_keys xs" by simp
  ultimately show ?thesis using dedupe_loop_keeps_keyless [OF l] by simp
qed

text \<open>Two records without url and title among two that share a title.\<close>

theorem dedupe_keeps_keyless_records_witness:
  "dedupe (\<lambda>n. if n = 0 then ''0.75'' else ''0.25'')
       [rec_of JNull JNull ''Coursera'', rec_of JNull (JStr ''0.5'') ''Class Central'',
        rec_of JUndefined (JStr []) ''Udemy'', rec_of JNull (JStr ''0.5'') ''Coursera'']
     = Inr [rec_of JNull JNull ''Coursera'', rec_of JNull (JStr ''0.5'') ''Class Central'',
        rec_of JUndefined (JStr []) ''Udemy'']
   \<and> filter keyless
       [rec_of JNull JNull ''Coursera'', rec_of JNull (JStr ''0.5'') ''Class Central'',
        rec_of JUndefined (JStr []) ''Udemy'']
     = [rec_of JNull JNull ''Coursera'', rec_of JUndefined (JStr []) ''Udemy'']"
proof -
  let ?rnd = "\<lambda>n::nat. if n = 0 then ''0.75'' else ''0.25''"
  let ?xs = "[rec_of JNull JNull ''Coursera'', rec_of JNull (JStr ''0.5'') ''Class Central'',
      rec_of JUndefined (JStr []) ''Udemy'', rec_of JNull (JStr ''0.5'') ''Coursera'']"
  let ?ys = "[rec_of JNull JNull ''Coursera'', rec_of JNull (JStr ''0.5'') ''Class Central'',
      rec_of JUndefined (JStr []) ''Udemy'']"
  have d: "dedupe ?rnd ?xs = Inr ?ys"
    by (simp add: dedupe_def dedupe_step_def key_operand_def rec_of_def)
  have k: "filter keyless ?xs
      = [rec_of JNull JNull ''Coursera'', rec_of JUndefined (JStr []) ''Udemy'']"
    by (simp add: keyless_def rec_of_def)
  have i: "inj_on ?rnd {..< length (filter keyless ?xs)}"
    unfolding k by (auto simp: inj_on_def less_Suc_eq)
  have f: "\<forall>j < length (filter keyless ?xs). ?rnd j \<notin> field_keys ?xs"
    unfolding k
    by (simp add: field_keys_def field_key_def field_operand_def List.map_filter_def rec_of_def)
  from dedupe_keeps_keyless_records [OF d i f] have "filter keyless ?ys = filter keyless ?xs" .
  with k d show ?thesis by simp
qed




text \<open>
  Claim C10. Keys from urls and keys from titles live in one set: a later record whose key
  string equals the key string of an earlier record is discarded, whichever fields the two
  keys come from. In particular a record with no url whose title equals the url of an
  earlier record is discarded, and so is a record whose url equals the title of an earlier
  record that has no url.
\<close>

theorem dedupe_one_key_namespace:
  "(field_operand a = Some va \<and> field_operand b = Some vb \<and> toString va = toString vb \<longrightarrow>
      dedupe rnd (pre @ a # mid @ b # post) = dedupe rnd (pre @ a # mid @ post))
   \<and> (truthy (url a) \<and> \<not> truthy (url b) \<and> title b = url a \<longrightarrow>
        dedupe rnd (pre @ a # mid @ b # post) = dedupe rnd (pre @ a # mid @ post))
   \<and> (\<not> truthy (url a) \<and> truthy (title a) \<and> url b = title a \<longrightarrow>
        dedupe rnd (pre @ a # mid @ b # post) = dedupe rnd (pre @ a # mid @ post))"
proof (intro conjI impI)
  assume "field_operand a = Some va \<and> field_operand b = Some vb \<and> toString va = toString vb"
  then show "dedupe rnd (pre @ a # mid @ b # post) = dedupe rnd (pre @ a # mid @ post)"
    by (blast intro: dedupe_later_duplicate)
next
  assume "truthy (url a) \<and> \<not> truthy (url b) \<and> title b = url a"
  then have "field_operand a = Some (url a)" "field_operand b = Some (url a)"
    by (simp_all add: field_operand_def)
  then show "dedupe rnd (pre @ a # mid @ b # post) = dedupe rnd (pre @ a # mid @ post)"
    by (rule dedupe_later_duplicate) simp
next
  assume "\<not> truthy (url a) \<and> truthy (title a) \<and> url b = title a"
  then have "field_operand a = Some (title a)" "field_operand b = Some (title a)"
    by (simp_all add: field_operand_def)
  then show "dedupe rnd (pre @ a # mid @ b # post) = dedupe rnd (pre @ a # mid @ post)"
    by (rule dedupe_later_duplicate) simp
qed

text \<open>A title that equals an earlier url, and a url that equals an earlier title.\<close>

theorem dedupe_one_key_namespace_witness:
  "dedupe (\<lambda>n. ''0.5'')
     [rec_of (JStr ''Python'') (JStr ''A course'') ''Coursera'',
      rec_of JNull (JStr ''Python'') ''Udemy'']
   = Inr [rec_of (JStr ''Python'') (JStr ''A course'') ''Coursera'']
   \<and> dedupe (\<lambda>n. ''0.5'')
     [rec_of JNull (JStr ''Python'') ''Udemy'',
      rec_of (JStr ''Python'') (JStr ''A course'') ''Coursera'']
   = Inr [rec_of JNull (JStr ''Python'') ''Udemy'']"
  using dedupe_one_key_namespace
    [of "rec_of (JStr ''Python'') (JStr ''A course'') ''Coursera''" "JStr ''Python''"
        "rec_of JNull (JStr ''Python'') ''Udemy''" "JStr ''Python''"
        "\<lambda>n. ''0.5''" "[]" "[]" "[]"]
  by (simp add: dedupe_def dedupe_step_def key_operand_def rec_of_def)

section \<open>Adapters: the claims\<close>

text \<open>
  Claim C4. Whatever the query and whatever the outside world does, the curriculum adapter
  returns a list of exactly one record, tagged \<open>freeCodeCamp\<close>. When the source is
  unreachable (\<^verbatim>\<open>fetch\<close> rejects) the record is the fixed entry of the \<^verbatim>\<open>catch\<close> block, whose
  title is \<open>freeCodeCamp: Learn\<close>. (A response that is not a success gives the other fixed
  entry, titled \<open>freeCodeCamp Learn\<close>.)
\<close>

theorem getFreeCodeCamp_never_empty:
  "(\<exists>c. getFreeCodeCamp w q = Inr [c] \<and> platform c = ''freeCodeCamp'')
   \<and> (fetch w fcc_url [] = Inl err \<longrightarrow> getFreeCodeCamp w q = Inr [fcc_fallback_entry])
   \<and> (fetch w fcc_url [] = Inr r \<and> \<not> r_ok r \<longrightarrow> getFreeCodeCamp w q = Inr [fcc_generic_entry])
   \<and> platform fcc_fallback_entry = ''freeCodeCamp''
   \<and> title fcc_fallback_entry = JStr ''freeCodeCamp: Learn''
   \<and> platform fcc_generic_entry = ''freeCodeCamp''
   \<and> title fcc_generic_entry = JStr ''freeCodeCamp Learn''"
proof (intro conjI impI)
  show "\<exists>c. getFreeCodeCamp w q = Inr [c] \<and> platform c = ''freeCodeCamp''"
    by (rule getFreeCodeCamp_one)
next
  assume "fetch w fcc_url [] = Inl err"
  then show "getFreeCodeCamp w q = Inr [fcc_fallback_entry]"
    by (simp add: getFreeCodeCamp_def and_then_Inl try_catch_Inl)
next
  assume "fetch w fcc_url [] = Inr r \<and> \<not> r_ok r"
  then show "getFreeCodeCamp w q = Inr [fcc_generic_entry]"
    by (simp add: getFreeCodeCamp_def and_then_Inr try_catch_Inr)
qed (simp_all add: fcc_fallback_entry_def fcc_generic_entry_def fcc_entry_def)

text \<open>The unreachable world, and a world where the curriculum source answers 503.\<close>

theorem getFreeCodeCamp_never_empty_witness:
  "fetch unreachable_world fcc_url [] = Inl FetchError
   \<and> getFreeCodeCamp unreachable_world [] = Inr [fcc_fallback_entry]
   \<and> fetch odd_url_world fcc_url [] = Inr (Response False (Inl BodyError) (Inl BodyError))
   \<and> getFreeCodeCamp odd_url_world [] = Inr [fcc_generic_entry]"
  using getFreeCodeCamp_never_empty [of unreachable_world "[]" FetchError]
    getFreeCodeCamp_never_empty
      [of odd_url_world "[]" _ "Response False (Inl BodyError) (Inl BodyError)"]
  by (simp add: unreachable_world_def odd_url_world_def fcc_url_def cc_url_def)



text \<open>
  Claim C6. The tech-feed adapter returns at most 20 records, and for a non-empty query
  every record it returns is built from tag-stripped, trimmed groups of a match and has the
  lower-cased query as a contiguous part of its lower-cased title or of its lower-cased
  description.
\<close>

theorem getGeeksForGeeks_filters_and_caps:
  assumes "getGeeksForGeeks w query = Inr xs"
  shows "length xs \<le> 20
    \<and> (query \<noteq> [] \<longrightarrow>
         (\<forall>c \<in> set xs. \<exists>m1 m2 m3 ps ss.
            c = gfg_item (trim (stripTags m1)) (trim (stripTags m3)) (trim (stripTags m2))
            \<and> (toLowerCase (trim (stripTags m1)) = ps @ toLowerCase query @ ss
                \<or> toLowerCase (trim (stripTags m3)) = ps @ toLowerCase query @ ss)))"
proof (intro conjI impI ballI)
  from getGeeksForGeeks_result [OF assms] show "length xs \<le> 20" by simp
next
  fix c
  assume q: "query \<noteq> []" and c: "c \<in> set xs"
  from getGeeksForGeeks_result [OF assms] c have "gfg_match query c" by simp
  with q obtain m1 m2 m3 where
    eq: "c = gfg_item (trim (stripTags m1)) (trim (stripTags m3)) (trim (stripTags m2))"
    and inc: "str_includes (toLowerCase (trim (stripTags m1))) (toLowerCase query)
              \<or> str_includes (toLowerCase (trim (stripTags m3))) (toLowerCase query)"
    unfolding gfg_match_def by blast
  from inc obtain ps ss where
    "toLowerCase (trim (stripTags m1)) = ps @ toLowerCase query @ ss
     \<or> toLowerCase (trim (stripTags m3)) = ps @ toLowerCase query @ ss"
    unfolding str_includes_iff by blast
  with eq show "\<exists>m1 m2 m3 ps ss.
            c = gfg_item (trim (stripTags m1)) (trim (stripTags m3)) (trim (stripTags m2))
            \<and> (toLowerCase (trim (stripTags m1)) = ps @ toLowerCase query @ ss
                \<or> toLowerCase (trim (stripTags m3)) = ps @ toLowerCase query @ ss)"
    by blast
qed

text \<open>A feed of three items, one of them about Python, and the query \<open>PYTHON\<close>.\<close>

theorem getGeeksForGeeks_filters_and_caps_witness:
  "getGeeksForGeeks feed_world ''PYTHON''
     = Inr [gfg_item ''Learn Python'' ''Intro'' ''https://g.org/1'']
   \<and> length [gfg_item ''Learn Python'' ''Intro'' ''https://g.org/1''] \<le> 20
   \<and> toLowerCase ''Learn Python'' = ''learn '' @ toLowerCase ''PYTHON'' @ []"
proof -
  have d: "getGeeksForGeeks feed_world ''PYTHON''
     = Inr [gfg_item ''Learn Python'' ''Intro'' ''https://g.org/1'']"
    by code_simp
  have l: "toLowerCase ''Learn Python'' = ''learn '' @ toLowerCase ''PYTHON'' @ []"
    by code_simp
  from getGeeksForGeeks_filters_and_caps [OF d] d l show ?thesis by simp
qed

text \<open>
  Claim C5. The adapters called are the four unconditional ones and, exactly when
  \<^verbatim>\<open>RAPIDAPI_KEY\<close> is set and not empty, the paid-course adapter \<open>getUdemy\<close>, whose result
  is then the last part of what is deduplicated into the array sent: every url or title
  key of a record it returns is the key of a record of the array (or is taken by a random
  key). When the variable is missing or empty, no record of the array sent has the
  platform \<open>Udemy\<close>.
\<close>

theorem udemy_only_with_key:
  "map (call_source w e q) (selected_sources e)
     = [getCoursera w q, getClassCentral w, getFreeCodeCamp w q, getGeeksForGeeks w q]
       @ (if (\<exists>k. RAPIDAPI_KEY e = Some k \<and> k \<noteq> []) then [getUdemy w e q] else [])
   \<and> (Udemy \<in> set (selected_sources e) \<longleftrightarrow> (\<exists>k. RAPIDAPI_KEY e = Some k \<and> k \<noteq> []))
   \<and> (body (handler w e req res) = Some (Courses ys) \<longrightarrow>
        dedupe (math_random w)
          (fulfilled_values
             ([getCoursera w (trim (q_string (query_q req))), getClassCentral w,
               getFreeCodeCamp w (trim (q_string (query_q req))),
               getGeeksForGeeks w (trim (q_string (query_q req)))]
              @ (if (\<exists>k. RAPIDAPI_KEY e = Some k \<and> k \<noteq> [])
                 then [getUdemy w e (trim (q_string (query_q req)))] else [])))
        = Inr ys)
   \<and> ((\<exists>k. RAPIDAPI_KEY e = Some k \<and> k \<noteq> [])
        \<and> getUdemy w e (trim (q_string (query_q req))) = Inr us
        \<and> body (handler w e req res) = Some (Courses ys) \<longrightarrow>
        (\<forall>u \<in> set us. \<forall>k. field_key u = Some k \<longrightarrow>
           k \<in> range (math_random w) \<or> (\<exists>c \<in> set ys. field_key c = Some k)))
   \<and> ((RAPIDAPI_KEY e = None \<or> RAPIDAPI_KEY e = Some [])
          \<and> body (handler w e req res) = Some (Courses ys) \<longrightarrow>
        (\<forall>c \<in> set ys. platform c \<noteq> ''Udemy''))"
proof (intro conjI impI)
  have t: "env_truthy (RAPIDAPI_KEY e) \<longleftrightarrow> (\<exists>k. RAPIDAPI_KEY e = Some k \<and> k \<noteq> [])"
    by (auto simp: env_truthy_def split: option.splits)
  show m: "map (call_source w e q) (selected_sources e)
     = [getCoursera w q, getClassCentral w, getFreeCodeCamp w q, getGeeksForGeeks w q]
       @ (if (\<exists>k. RAPIDAPI_KEY e = Some k \<and> k \<noteq> []) then [getUdemy w e q] else [])" for q
    unfolding t [symmetric] by (simp add: selected_sources_def)
  show "Udemy \<in> set (selected_sources e) \<longleftrightarrow> (\<exists>k. RAPIDAPI_KEY e = Some k \<and> k \<noteq> [])"
    unfolding t [symmetric] by (simp add: selected_sources_def)
  {
    assume "body (handler w e req res) = Some (Courses ys)"
    from handler_body_courses [OF this]
    show "dedupe (math_random w)
          (fulfilled_values
             ([getCoursera w (trim (q_string (query_q req))), getClassCentral w,
               getFreeCodeCamp w (trim (q_string (query_q req))),
               getGeeksForGeeks w (trim (q_string (query_q req)))]
              @ (if (\<exists>k. RAPIDAPI_KEY e = Some k \<and> k \<noteq> [])
                 then [getUdemy w e (trim (q_string (query_q req)))] else [])))
        = Inr ys"
      by (simp only: m)
  }
  {
    assume h: "(\<exists>k. RAPIDAPI_KEY e = Some k \<and> k \<noteq> [])
        \<and> getUdemy w e (trim (q_string (query_q req))) = Inr us
        \<and> body (handler w e req res) = Some (Courses ys)"
    let ?q = "trim (q_string (query_q req))"
    let ?all = "fulfilled_values (map (call_source w e ?q) (selected_sources e))"
    from h handler_body_courses have d: "dedupe (math_random w) ?all = Inr ys" by blast
    from h have "?all = fulfilled_values
        [getCoursera w ?q, getClassCentral w, getFreeCodeCamp w ?q, getGeeksForGeeks w ?q] @ us"
      by (simp add: m fulfilled_values_append) (simp add: fulfilled_values_def)
    then have "field_keys us \<subseteq> field_keys ?all" by (simp add: field_keys_append)
    with dedupe_keys_reach_output [OF d]
    have sub: "field_keys us \<subseteq> field_keys ys \<union> range (math_random w)" by blast
    show "\<forall>u \<in> set us. \<forall>k. field_key u = Some k \<longrightarrow>
           k \<in> range (math_random w) \<or> (\<exists>c \<in> set ys. field_key c = Some k)"
    proof (intro ballI allI impI)
      fix u k assume "u \<in> set us" "field_key u = Some k"
      then have "k \<in> field_keys us"
        by (force simp: field_keys_def List.map_filter_def)
      with sub have "k \<in> field_keys ys \<or> k \<in> range (math_random w)" by blast
      then show "k \<in> range (math_random w) \<or> (\<exists>c \<in> set ys. field_key c = Some k)"
        by (auto simp: field_keys_def List.map_filter_def)
    qed
  }
  {
    assume h: "(RAPIDAPI_KEY e = None \<or> RAPIDAPI_KEY e = Some [])
          \<and> body (handler w e req res) = Some (Courses ys)"
    then have "Udemy \<notin> set (selected_sources e)"
      by (auto simp: selected_sources_def env_truthy_def)
    then have all: "\<forall>c \<in> set (fulfilled_values (map (call_source w e (trim (q_string (query_q req))))
        (selected_sources e))). platform c \<noteq> ''Udemy''"
      by (rule fulfilled_values_platform)
    from h handler_body_courses have "dedupe (math_random w)
      (fulfilled_values (map (call_source w e (trim (q_string (query_q req))))
        (selected_sources e))) = Inr ys" by blast
    with all show "\<forall>c \<in> set ys. platform c \<noteq> ''Udemy''" by (auto dest: dedupe_subset)
  }
qed

text \<open>
  A world where the paid-course source returns one course: it is in the array with the
  key \<open>k1\<close> set, and absent without a key.
\<close>

theorem udemy_only_with_key_witness:
  "getUdemy udemy_world key_env ''sql''
     = Inr [\<lparr>title = JStr ''SQL Bootcamp'', description = JStr [], image_c = JNull,
             url = JStr ''https://u.example/sql'', platform = ''Udemy'', free = True\<rparr>]
   \<and> body (handler udemy_world key_env \<lparr>query_q = QString ''sql''\<rparr> new_response)
       = Some (Courses [fcc_fallback_entry,
            \<lparr>title = JStr ''SQL Bootcamp'', description = JStr [], image_c = JNull,
             url = JStr ''https://u.example/sql'', platform = ''Udemy'', free = True\<rparr>])
   \<and> body (handler udemy_world no_env \<lparr>query_q = QString ''sql''\<rparr> new_response)
       = Some (Courses [fcc_fallback_entry])
   \<and> platform fcc_fallback_entry \<noteq> ''Udemy''
   \<and> Udemy \<in> set (selected_sources key_env) \<and> Udemy \<notin> set (selected_sources no_env)"
proof -
  have g: "getUdemy udemy_world key_env ''sql''
     = Inr [\<lparr>title = JStr ''SQL Bootcamp'', description = JStr [], image_c = JNull,
             url = JStr ''https://u.example/sql'', platform = ''Udemy'', free = True\<rparr>]"
    by code_simp
  have b1: "body (handler udemy_world key_env \<lparr>query_q = QString ''sql''\<rparr> new_response)
       = Some (Courses [fcc_fallback_entry,
            \<lparr>title = JStr ''SQL Bootcamp'', description = JStr [], image_c = JNull,
             url = JStr ''https://u.example/sql'', platform = ''Udemy'', free = True\<rparr>])"
    by code_simp
  have b2: "body (handler udemy_world no_env \<lparr>query_q = QString ''sql''\<rparr> new_response)
       = Some (Courses [fcc_fallback_entry])"
    by code_simp
  from udemy_only_with_key [of udemy_world key_env _ "\<lparr>query_q = QString ''sql''\<rparr>" new_response
      "[fcc_fallback_entry,
        \<lparr>title = JStr ''SQL Bootcamp'', description = JStr [], image_c = JNull,
         url = JStr ''https://u.example/sql'', platform = ''Udemy'', free = True\<rparr>]"
      "[\<lparr>title = JStr ''SQL Bootcamp'', description = JStr [], image_c = JNull,
         url = JStr ''https://u.example/sql'', platform = ''Udemy'', free = True\<rparr>]"]
    udemy_only_with_key [of udemy_world no_env _ "\<lparr>query_q = QString ''sql''\<rparr>" new_response
      "[fcc_fallback_entry]"]
    g b1 b2
  show ?thesis by (simp add: no_env_def key_env_def)
qed

section \<open>The handler: the claims\<close>

lemma dedupe_fcc_single:
  "dedupe rnd [fcc_entry t d] = Inr [fcc_entry t d]"
  by (simp add: dedupe_def dedupe_step_def key_operand_def fcc_entry_def)

lemma getCoursera_source_fails:
  assumes "source_fails w e q Coursera"
  shows "getCoursera w q = Inr []"
proof (cases "encodeURIComponent w q")
  case (Inl err)
  then show ?thesis by (simp add: getCoursera_def and_then_Inl try_catch_Inl)
next
  case (Inr search)
  with assms have "request_fails r_json (fetch w (coursera_url search) [])" by simp
  then show ?thesis
    by (cases rule: request_fails_cases)
      (simp_all add: getCoursera_def coursera_url_def Inr and_then_Inl and_then_Inr
        try_catch_Inl try_catch_Inr)
qed

lemma getUdemy_source_fails:
  assumes "source_fails w e q Udemy"
  shows "getUdemy w e q = Inr []"
proof (cases "encodeURIComponent w q")
  case (Inl err)
  then show ?thesis by (simp add: getUdemy_def Let_def and_then_Inl try_catch_Inl)
next
  case (Inr search)
  with assms have "request_fails r_json (fetch w (udemy_url e search) (udemy_headers e))" by simp
  then show ?thesis
    by (cases rule: request_fails_cases)
      (simp_all add: getUdemy_def Let_def udemy_url_def udemy_headers_def udemy_host_def Inr
        and_then_Inl and_then_Inr try_catch_Inl try_catch_Inr)
qed

lemma call_source_fails:
  assumes "source_fails w e q src"
  shows "(src \<noteq> FreeCodeCamp \<longrightarrow> call_source w e q src = Inr [])
       \<and> (src = FreeCodeCamp \<longrightarrow> call_source w e q src = Inr [fcc_generic_entry]
            \<or> call_source w e q src = Inr [fcc_fallback_entry])"
proof (cases src)
  case Coursera
  with assms show ?thesis by (simp add: getCoursera_source_fails)
next
  case ClassCentral
  with assms show ?thesis by (simp add: getClassCentral_fails)
next
  case FreeCodeCamp
  with assms getFreeCodeCamp_fails [of w q] show ?thesis by simp
next
  case GeeksForGeeks
  with assms show ?thesis by (simp add: getGeeksForGeeks_fails)
next
  case Udemy
  with assms show ?thesis by (simp add: getUdemy_source_fails)
qed

lemma all_fail_values:
  assumes "list_all (source_fails w e q) (selected_sources e)"
  shows "fulfilled_values (map (call_source w e q) (selected_sources e)) = [fcc_generic_entry]
       \<or> fulfilled_values (map (call_source w e q) (selected_sources e)) = [fcc_fallback_entry]"
proof -
  from assms have f: "source_fails w e q Coursera" "source_fails w e q ClassCentral"
    "source_fails w e q FreeCodeCamp" "source_fails w e q GeeksForGeeks"
    and u: "env_truthy (RAPIDAPI_KEY e) \<longrightarrow> source_fails w e q Udemy"
    by (auto simp: selected_sources_def split: if_splits)
  from f call_source_fails [of w e q] have
    c: "getCoursera w q = Inr []" "getClassCentral w = Inr []" "getGeeksForGeeks w q = Inr []"
    and fc: "getFreeCodeCamp w q = Inr [fcc_generic_entry]
      \<or> getFreeCodeCamp w q = Inr [fcc_fallback_entry]"
    by force+
  from u call_source_fails [of w e q Udemy] have
    "env_truthy (RAPIDAPI_KEY e) \<longrightarrow> getUdemy w e q = Inr []" by simp
  with c fc show ?thesis
    by (auto simp: selected_sources_def fulfilled_values_def)
qed

text \<open>
  Claim C1, as stated, fails: when every source is unreachable the handler answers 200,
  but the array is not empty. It holds the fallback entry of the curriculum adapter.
\<close>

theorem all_sources_fail_not_empty:
  "list_all (source_fails unreachable_world no_env []) (selected_sources no_env)
   \<and> statusCode (handler unreachable_world no_env \<lparr>query_q = QAbsent\<rparr> new_response) = 200
   \<and> body (handler unreachable_world no_env \<lparr>query_q = QAbsent\<rparr> new_response)
       = Some (Courses [fcc_fallback_entry])
   \<and> body (handler unreachable_world no_env \<lparr>query_q = QAbsent\<rparr> new_response)
       \<noteq> Some (Courses [])"
proof -
  have a: "list_all (source_fails unreachable_world no_env []) (selected_sources no_env)"
    by (simp add: selected_sources_def no_env_def env_truthy_def request_fails_def
        unreachable_world_def)
  have s: "statusCode (handler unreachable_world no_env \<lparr>query_q = QAbsent\<rparr> new_response) = 200"
    by code_simp
  have b: "body (handler unreachable_world no_env \<lparr>query_q = QAbsent\<rparr> new_response)
       = Some (Courses [fcc_fallback_entry])"
    by code_simp
  from a s b show ?thesis by simp
qed

text \<open>
  Claim C1, amended. When every adapter that is called fails (network error, status that
  is not a success, or a body that cannot be read or parsed, each adapter for its own
  request), the handler answers with status 200, not 500, and the array holds exactly one
  record: one of the two fixed entries of the curriculum adapter. The other adapters
  contribute nothing.
\<close>

theorem all_sources_fail_response:
  assumes "list_all (source_fails w e (trim (q_string (query_q req)))) (selected_sources e)"
  shows "statusCode (handler w e req res) = 200
    \<and> (body (handler w e req res) = Some (Courses [fcc_generic_entry])
       \<or> body (handler w e req res) = Some (Courses [fcc_fallback_entry]))"
proof -
  let ?q = "trim (q_string (query_q req))"
  let ?all = "fulfilled_values (map (call_source w e ?q) (selected_sources e))"
  from all_fail_values [OF assms]
  have "dedupe (math_random w) ?all = Inr [fcc_generic_entry] \<and> ?all = [fcc_generic_entry]
      \<or> dedupe (math_random w) ?all = Inr [fcc_fallback_entry] \<and> ?all = [fcc_fallback_entry]"
    by (auto simp: fcc_generic_entry_def fcc_fallback_entry_def dedupe_fcc_single)
  then show ?thesis
    by (auto simp: handler_def Let_def json_def status_def setHeader_def)
qed

text \<open>
  All five adapters called, with the query \<open>sql\<close>: two get a page that is not JSON, two a
  503, one a network error.
\<close>

theorem all_sources_fail_response_witness:
  "list_all (source_fails failing_world key_env ''sql'') (selected_sources key_env)
   \<and> selected_sources key_env = [Coursera, ClassCentral, FreeCodeCamp, GeeksForGeeks, Udemy]
   \<and> fetch failing_world (coursera_url ''sql'') []
       = Inr (Response True (Inl BodyError) (Inr ''<html>maintenance</html>''))
   \<and> statusCode (handler failing_world key_env \<lparr>query_q = QString '' sql ''\<rparr> new_response) = 200
   \<and> body (handler failing_world key_env \<lparr>query_q = QString '' sql ''\<rparr> new_response)
       = Some (Courses [fcc_generic_entry])"
proof -
  have q: "trim (q_string (query_q \<lparr>query_q = QString '' sql ''\<rparr>)) = ''sql''"
    by code_simp
  have a: "list_all (source_fails failing_world key_env ''sql'') (selected_sources key_env)"
    by code_simp
  have sel: "selected_sources key_env = [Coursera, ClassCentral, FreeCodeCamp, GeeksForGeeks, Udemy]"
    by code_simp
  have f: "fetch failing_world (coursera_url ''sql'') []
       = Inr (Response True (Inl BodyError) (Inr ''<html>maintenance</html>''))"
    by code_simp
  have n: "body (handler failing_world key_env \<lparr>query_q = QString '' sql ''\<rparr> new_response)
       \<noteq> Some (Courses [fcc_fallback_entry])"
    by code_simp
  from a have a': "list_all (source_fails failing_world key_env
      (trim (q_string (query_q \<lparr>query_q = QString '' sql ''\<rparr>)))) (selected_sources key_env)"
    by (simp only: q)
  from all_sources_fail_response [OF a', of new_response] n a sel f
  show ?thesis by simp
qed

text \<open>
  Claim C3, as stated, fails: a url whose \<^verbatim>\<open>toString\<close> throws makes the deduplication throw,
  the \<^verbatim>\<open>catch\<close> block of the handler answers 500, and it sets only the cross-origin header,
  so the response has no \<^verbatim>\<open>Cache-Control\<close> header.
\<close>

theorem error_response_lacks_cache_control:
  "statusCode (handler odd_url_world no_env \<lparr>query_q = QAbsent\<rparr> new_response) = 500
   \<and> headers (handler odd_url_world no_env \<lparr>query_q = QAbsent\<rparr> new_response) ''Cache-Control''
       = None
   \<and> headers (handler odd_url_world no_env \<lparr>query_q = QAbsent\<rparr> new_response)
       ''Access-Control-Allow-Origin'' = Some ''*''"
  by code_simp

text \<open>
  Claim C3, amended. Every response carries \<^verbatim>\<open>Access-Control-Allow-Origin: *\<close> and a body
  sent by \<^verbatim>\<open>res.json\<close>. The response is either the 200 one, with the \<^verbatim>\<open>Cache-Control\<close> and
  \<^verbatim>\<open>Content-Type\<close> headers and the array of records as its body, or the 500 one, with the
  error object as its body and, of the headers, only the cross-origin one set by the
  handler (the others stay as they were in the response object it received).
\<close>

theorem response_headers:
  "headers (handler w e req res) ''Access-Control-Allow-Origin'' = Some ''*''
   \<and> (\<exists>b. body (handler w e req res) = Some b)
   \<and> ((statusCode (handler w e req res) = 200
        \<and> headers (handler w e req res) ''Cache-Control''
            = Some ''s-maxage=3600, stale-while-revalidate=59''
        \<and> headers (handler w e req res) ''Content-Type''
            = Some ''application/json; charset=utf-8''
        \<and> (\<exists>ys. body (handler w e req res) = Some (Courses ys)))
       \<or> (statusCode (handler w e req res) = 500
           \<and> headers (handler w e req res)
               = (headers res)(''Access-Control-Allow-Origin'' \<mapsto> ''*'')
           \<and> body (handler w e req res)
               = Some (ErrorObject ''Failed to fetch aggregated courses'')))"
proof (cases rule: handler_cases [of w e req res])
  case (ok deduped)
  then show ?thesis by (simp add: json_def status_def setHeader_def)
next
  case (thrown err)
  then show ?thesis by (simp add: json_def status_def setHeader_def)
qed

text \<open>One response of each kind.\<close>

theorem response_headers_witness:
  "headers (handler odd_url_world no_env \<lparr>query_q = QAbsent\<rparr> new_response)
       = Map.empty(''Access-Control-Allow-Origin'' \<mapsto> ''*'')
   \<and> headers (handler unreachable_world no_env \<lparr>query_q = QAbsent\<rparr> new_response)
       ''Cache-Control'' = Some ''s-maxage=3600, stale-while-revalidate=59''"
proof -
  have s5: "statusCode (handler odd_url_world no_env \<lparr>query_q = QAbsent\<rparr> new_response) \<noteq> 200"
    by code_simp
  have s2: "statusCode (handler unreachable_world no_env \<lparr>query_q = QAbsent\<rparr> new_response) \<noteq> 500"
    by code_simp
  from response_headers [of odd_url_world no_env "\<lparr>query_q = QAbsent\<rparr>" new_response]
    response_headers [of unreachable_world no_env "\<lparr>query_q = QAbsent\<rparr>" new_response]
    s5 s2
  show ?thesis by (simp add: new_response_def)
qed

end
